theory Spec2Isabelle
  imports Complex_Main
begin

section \<open>The five-room maze with a moveable and a white-noise object\<close>

text \<open>
  Source: \<^verbatim>\<open>rlpyt/envs/pycolab/pycolab/examples/deepmind_5room_moveable.py\<close>.
  Positions are (row, column) pairs of Python integers.
\<close>

type_synonym coord = "int \<times> int"

text \<open>\<^verbatim>\<open>MAZES_ART[0]\<close>, the only level.\<close>

definition MAZES_ART :: "string list" where
  "MAZES_ART =
    [''###################'',
     ''##               ##'',
     ''# #             # #'',
     ''#  #     e     #  #'',
     ''#   #         #   #'',
     ''#    #### ####    #'',
     ''#    #### ####    #'',
     ''#    ##     ##    #'',
     ''#    ##     ##    #'',
     ''#        P        #'',
     ''#    ##     ##    #'',
     ''#    ##     ##    #'',
     ''#    #### ####    #'',
     ''#    #### ####    #'',
     ''#   #         #   #'',
     ''#  #           #  #'',
     ''# # b           # #'',
     ''##               ##'',
     ''###################'']"

text \<open>\<^verbatim>\<open>ROOMS[2]\<close> and \<^verbatim>\<open>ROOMS[4]\<close>: the coordinate lists of the top and the bottom room.\<close>

definition ROOMS_2 :: "coord list" where
  "ROOMS_2 =
    [(1, 4), (1, 5), (1, 6), (1, 7), (1, 8), (1, 9), (1, 10), (1, 11), (1, 12), (1, 13), (1, 14),
     (2, 4), (2, 5), (2, 6), (2, 7), (2, 8), (2, 9), (2, 10), (2, 11), (2, 12), (2, 13), (2, 14),
     (3, 5), (3, 6), (3, 7), (3, 8), (3, 9), (3, 10), (3, 11), (3, 12), (3, 13),
     (4, 6), (4, 7), (4, 11), (4, 12)]"

definition ROOMS_4 :: "coord list" where
  "ROOMS_4 =
    [(14, 6), (14, 7), (14, 11), (14, 12),
     (15, 5), (15, 6), (15, 7), (15, 8), (15, 9), (15, 10), (15, 11), (15, 12), (15, 13),
     (16, 4), (16, 5), (16, 6), (16, 7), (16, 8), (16, 9), (16, 10), (16, 11), (16, 12),
     (16, 13), (16, 14),
     (17, 4), (17, 5), (17, 6), (17, 7), (17, 8), (17, 9), (17, 10), (17, 11), (17, 12),
     (17, 13), (17, 14)]"

subsection \<open>Boards and maze walkers\<close>

text \<open>
  A board is the rendered character grid that the engine hands to every sprite of an
  update group; a cell outside the grid has no character.
\<close>

type_synonym board = "string list"

definition board_at :: "board \<Rightarrow> coord \<Rightarrow> char option" where
  "board_at bd p =
     (let r = fst p; c = snd p in
      if 0 \<le> r \<and> r < int (length bd) \<and> 0 \<le> c \<and> c < int (length (bd ! nat r))
      then Some (bd ! nat r ! nat c) else None)"

record sprite =
  position :: coord
  impassable :: string

record player = sprite +
  last_position :: "coord option"
  last_action :: "int option"

record noise = sprite +
  empty_coords :: "coord list"

text \<open>
  Modelled from the spec: \<^verbatim>\<open>prefab_sprites.MazeWalker\<close> (pycolab's
  \<^verbatim>\<open>prefab_parts/sprites.py\<close>) is not among the sources.  A motion is obstructed when the
  board shows, at the destination, a character the walker cannot pass; then the walker
  stays and the obstructing character is returned.  Otherwise the walker moves there and
  \<^verbatim>\<open>None\<close> is returned.  The walkers of this game are not confined to the board.
\<close>

definition move :: "'a sprite_scheme \<Rightarrow> board \<Rightarrow> coord \<Rightarrow> 'a sprite_scheme \<times> char option" where
  "move w bd motion =
     (let new = (fst (position w) + fst motion, snd (position w) + snd motion) in
      case board_at bd new of
        Some ch \<Rightarrow> if ch \<in> set (impassable w) then (w, Some ch)
                   else (w\<lparr>position := new\<rparr>, None)
      | None \<Rightarrow> (w\<lparr>position := new\<rparr>, None))"

definition north :: "'a sprite_scheme \<Rightarrow> board \<Rightarrow> 'a sprite_scheme \<times> char option" where
  "north w bd = move w bd (-1, 0)"

definition south :: "'a sprite_scheme \<Rightarrow> board \<Rightarrow> 'a sprite_scheme \<times> char option" where
  "south w bd = move w bd (1, 0)"

definition west :: "'a sprite_scheme \<Rightarrow> board \<Rightarrow> 'a sprite_scheme \<times> char option" where
  "west w bd = move w bd (0, -1)"

definition east :: "'a sprite_scheme \<Rightarrow> board \<Rightarrow> 'a sprite_scheme \<times> char option" where
  "east w bd = move w bd (0, 1)"

definition stay :: "'a sprite_scheme \<Rightarrow> board \<Rightarrow> 'a sprite_scheme \<times> char option" where
  "stay w bd = move w bd (0, 0)"

text \<open>
  Modelled from the spec: \<^verbatim>\<open>MazeWalker._teleport\<close> is not among the sources; it puts the
  walker at the given coordinate without looking at the board.
\<close>

definition teleport :: "'a sprite_scheme \<Rightarrow> coord \<Rightarrow> 'a sprite_scheme" where
  "teleport w p = w\<lparr>position := p\<rparr>"

subsection \<open>The three sprites\<close>

datatype py_error = TypeError | KeyError | IndexError | RuntimeError | AssertionError
  | AttributeError | ValueError

text \<open>
  \<^verbatim>\<open>PlayerSprite.update\<close>: remembers where it was and what it was told, then walks.
  The second component is whether \<^verbatim>\<open>the_plot.terminate_episode()\<close> was called.
  At show time the engine passes \<^verbatim>\<open>None\<close> as the action.
\<close>

definition PlayerSprite_update :: "int option \<Rightarrow> board \<Rightarrow> player \<Rightarrow> player \<times> bool" where
  "PlayerSprite_update actions bd P0 =
     (let P1 = P0\<lparr>last_position := Some (position P0), last_action := actions\<rparr>;
          P2 = (if actions = Some 0 then fst (north P1 bd)
                else if actions = Some 1 then fst (south P1 bd)
                else if actions = Some 2 then fst (west P1 bd)
                else if actions = Some 3 then fst (east P1 bd)
                else if actions = Some 4 then fst (stay P1 bd)
                else P1)
      in (P2, actions = Some 5))"

text \<open>
  \<^verbatim>\<open>WhiteNoiseObject.update\<close>: \<open>k\<close> is the value drawn by
  \<^verbatim>\<open>np.random.choice(len(self._empty_coords))\<close>, an index below that length.
\<close>

definition WhiteNoiseObject_update :: "nat \<Rightarrow> noise \<Rightarrow> noise" where
  "WhiteNoiseObject_update k w = teleport w (empty_coords w ! k)"

text \<open>
  \<^verbatim>\<open>MoveableObject.update\<close>: returns the object and the player (whom it may push back).
  Unpacking \<^verbatim>\<open>things['P'].last_position\<close> raises when the player has not been updated yet.
\<close>

definition MoveableObject_update :: "board \<Rightarrow> player \<Rightarrow> sprite \<Rightarrow> py_error + (sprite \<times> player)" where
  "MoveableObject_update bd P0 m =
     (case last_position P0 of
        None \<Rightarrow> Inl TypeError
      | Some (pr, pc) \<Rightarrow>
          (let mr = fst (position m); mc = snd (position m); p_action = last_action P0 in
           if mc = pc \<and> mr - pr = -1 \<and> p_action = Some 0 then
             (case north m bd of
                (m', moved) \<Rightarrow> if moved \<noteq> None then Inr (m', fst (south P0 bd)) else Inr (m', P0))
           else if mc = pc \<and> mr - pr = 1 \<and> p_action = Some 1 then
             (if position m = (3, 9) then Inr (fst (stay m bd), fst (north P0 bd))
              else case south m bd of
                (m', moved) \<Rightarrow> if moved \<noteq> None then Inr (m', fst (north P0 bd)) else Inr (m', P0))
           else if mc - pc = 1 \<and> mr = pr \<and> p_action = Some 3 then
             (if position m = (4, 8) then Inr (fst (stay m bd), fst (west P0 bd))
              else case east m bd of
                (m', moved) \<Rightarrow> if moved \<noteq> None then Inr (m', fst (west P0 bd)) else Inr (m', P0))
           else if mc - pc = -1 \<and> mr = pr \<and> p_action = Some 2 then
             (if position m = (4, 10) then Inr (fst (stay m bd), fst (east P0 bd))
              else case west m bd of
                (m', moved) \<Rightarrow> if moved \<noteq> None then Inr (m', fst (east P0 bd)) else Inr (m', P0))
           else Inr (m, P0)))"

subsection \<open>The game engine\<close>

record game =
  sprite_P :: player
  sprite_e :: sprite
  sprite_b :: noise
  game_over :: bool
  frame :: int

text \<open>
  Modelled from the spec: pycolab's \<^verbatim>\<open>ascii_art.ascii_art_to_game\<close> and \<^verbatim>\<open>Engine\<close> are not
  among the sources.  The sprites start where their characters stand in the art, the
  backdrop shows \<^verbatim>\<open>what_lies_beneath\<close> there, and the board shows at each cell the topmost
  sprite of the z-order \<^verbatim>\<open>'ebP'\<close> (the player on top), else the backdrop.
\<close>

definition find_char :: "string list \<Rightarrow> char \<Rightarrow> coord option" where
  "find_char art ch =
     (case filter (\<lambda>(r, c). art ! r ! c = ch)
             (concat (map (\<lambda>r. map (\<lambda>c. (r, c)) [0..<length (art ! r)]) [0..<length art])) of
        [] \<Rightarrow> None
      | (r, c) # _ \<Rightarrow> Some (int r, int c))"

definition backdrop :: "string list \<Rightarrow> board" where
  "backdrop art = map (map (\<lambda>ch. if ch \<in> set ''Peb'' then CHR '' '' else ch)) art"

definition render :: "game \<Rightarrow> board" where
  "render g =
     map (\<lambda>r. map (\<lambda>c.
            if position (sprite_P g) = (int r, int c) then CHR ''P''
            else if position (sprite_b g) = (int r, int c) then CHR ''b''
            else if position (sprite_e g) = (int r, int c) then CHR ''e''
            else backdrop MAZES_ART ! r ! c) [0..<length (MAZES_ART ! r)])
       [0..<length MAZES_ART]"

definition make_game :: game where
  "make_game =
     \<lparr>sprite_P = \<lparr>position = the (find_char MAZES_ART CHR ''P''), impassable = ''#'',
                   last_position = None, last_action = None\<rparr>,
      sprite_e = \<lparr>position = the (find_char MAZES_ART CHR ''e''), impassable = ''#b''\<rparr>,
      sprite_b = \<lparr>position = the (find_char MAZES_ART CHR ''b''), impassable = ''Pe#'',
                   empty_coords = ROOMS_4\<rparr>,
      game_over = False,
      frame = -1\<rparr>"

text \<open>
  One game iteration: \<^verbatim>\<open>Engine.play\<close>.  The three sprites form one update group, in the
  order of \<^verbatim>\<open>update_schedule=['P', 'e', 'b']\<close>, so all of them see the board rendered before
  the iteration.  \<open>k\<close> is the random index drawn by the white-noise object.
\<close>

definition play :: "game \<Rightarrow> int option \<Rightarrow> nat \<Rightarrow> py_error + game" where
  "play g actions k =
     (if game_over g then Inl RuntimeError
      else
        let bd = render g;
            (P1, quit) = PlayerSprite_update actions bd (sprite_P g)
        in case MoveableObject_update bd P1 (sprite_e g) of
             Inl err \<Rightarrow> Inl err
           | Inr (e1, P2) \<Rightarrow>
               Inr (g\<lparr>sprite_P := P2, sprite_e := e1,
                      sprite_b := WhiteNoiseObject_update k (sprite_b g),
                      game_over := quit, frame := frame g + 1\<rparr>))"

definition its_showtime :: "game \<Rightarrow> nat \<Rightarrow> py_error + game" where
  "its_showtime g k = play g None k"

text \<open>The games an episode can be in: show time, then iterations with any action and any draw.\<close>

inductive reachable :: "game \<Rightarrow> bool" where
  start: "k < length ROOMS_4 \<Longrightarrow> its_showtime make_game k = Inr g \<Longrightarrow> reachable g"
| iter: "reachable g \<Longrightarrow> k < length ROOMS_4 \<Longrightarrow> play g a k = Inr g' \<Longrightarrow> reachable g'"

subsection \<open>Vocabulary for the properties of the sprites\<close>

text \<open>
  The motion of an action: 0 is up (north), 1 is down (south), 2 is left (west), 3 is right
  (east), as in \<^verbatim>\<open>PlayerSprite.update\<close>.
\<close>

definition motion :: "int \<Rightarrow> coord" where
  "motion d = (if d = 0 then (-1, 0) else if d = 1 then (1, 0) else if d = 2 then (0, -1) else (0, 1))"

definition shift :: "coord \<Rightarrow> coord \<Rightarrow> coord" where
  "shift p v = (fst p + fst v, snd p + snd v)"

definition behind :: "coord \<Rightarrow> coord \<Rightarrow> coord" where
  "behind p v = (fst p - fst v, snd p - snd v)"

definition opposite :: "coord \<Rightarrow> coord" where
  "opposite v = (- fst v, - snd v)"

text \<open>
  The player pushes the object in direction \<open>d\<close>: before the iteration it stands on the cell
  next to the object on the side opposite to \<open>d\<close>, and its action is the move in direction
  \<open>d\<close>.
\<close>

definition pushed :: "game \<Rightarrow> int option \<Rightarrow> int \<Rightarrow> bool" where
  "pushed g a d = (a = Some d \<and> position (sprite_P g) = behind (position (sprite_e g)) (motion d))"

text \<open>The three pushes that would take the object out of the top room.\<close>

definition exit_push :: "coord \<Rightarrow> int \<Rightarrow> bool" where
  "exit_push m d = (d = 1 \<and> m = (3, 9) \<or> d = 3 \<and> m = (4, 8) \<or> d = 2 \<and> m = (4, 10))"

text \<open>A cell is blocked for a walker when the board shows there a character it cannot pass.\<close>

definition blocked_at :: "board \<Rightarrow> string \<Rightarrow> coord \<Rightarrow> bool" where
  "blocked_at bd imp p = (case board_at bd p of Some ch \<Rightarrow> ch \<in> set imp | None \<Rightarrow> False)"

definition obstructed :: "game \<Rightarrow> int \<Rightarrow> bool" where
  "obstructed g d =
     (case board_at (render g) (shift (position (sprite_e g)) (motion d)) of
        Some ch \<Rightarrow> ch \<in> set (impassable (sprite_e g))
      | None \<Rightarrow> False)"

text \<open>
  The floor of the top room (room 2): the cells of rows 1 to 4 between the two diagonal
  walls, without the doorway cell (4, 9) that leads down to the central room.
\<close>

definition upper_room :: "coord list" where
  "upper_room = filter (\<lambda>p. p \<noteq> (4, 9)) (concat (map (\<lambda>r. map (\<lambda>c. (r, c)) [r + 1..17 - r]) [1..4]))"

definition game_inv :: "game \<Rightarrow> bool" where
  "game_inv g = (impassable (sprite_P g) = ''#'' \<and> impassable (sprite_e g) = ''#b''
     \<and> empty_coords (sprite_b g) = ROOMS_4 \<and> position (sprite_b g) \<in> set ROOMS_4
     \<and> position (sprite_e g) \<in> set upper_room)"

text \<open>A sequence of iterations, each with its action and its random draw.\<close>

fun plays :: "game \<Rightarrow> (int option \<times> nat) list \<Rightarrow> py_error + game" where
  "plays g [] = Inr g"
| "plays g ((a, k) # rest) = (case play g a k of Inl err \<Rightarrow> Inl err | Inr g' \<Rightarrow> plays g' rest)"

text \<open>
  Two games of an episode: the player has walked up from its start to the doorway below
  the object; then it has walked around the object and stands above it.
\<close>

definition at_the_door :: game where
  "at_the_door =
     \<lparr>sprite_P = \<lparr>position = (4, 9), impassable = ''#'', last_position = Some (5, 9),
                   last_action = Some 0\<rparr>,
      sprite_e = \<lparr>position = (3, 9), impassable = ''#b''\<rparr>,
      sprite_b = \<lparr>position = (14, 6), impassable = ''Pe#'', empty_coords = ROOMS_4\<rparr>,
      game_over = False,
      frame = 5\<rparr>"

definition above_the_object :: game where
  "above_the_object =
     \<lparr>sprite_P = \<lparr>position = (2, 9), impassable = ''#'', last_position = Some (2, 8),
                   last_action = Some 3\<rparr>,
      sprite_e = \<lparr>position = (3, 9), impassable = ''#b''\<rparr>,
      sprite_b = \<lparr>position = (14, 6), impassable = ''Pe#'', empty_coords = ROOMS_4\<rparr>,
      game_over = False,
      frame = 9\<rparr>"

section \<open>The gym adapter \<^verbatim>\<open>PyColabEnv\<close>\<close>

text \<open>
  Source: \<^verbatim>\<open>rlpyt/envs/mazeworld/mazeworld/envs/pycolab_env.py\<close>.
  A layer (curtain) is a boolean array, an image an array of (R, G, B) cells; arrays are
  lists of rows.
\<close>

type_synonym mask = "bool list list"
type_synonym color = "int \<times> int \<times> int"
type_synonym image = "color list list"

record observations =
  layers :: "char \<rightharpoonup> mask"
  obs_board :: "string list"

text \<open>
  \<^verbatim>\<open>extrinsic_reward_spec[1]\<close> is either a coordinate (a tuple) or a character.
\<close>

datatype goal = GoalCoord coord | GoalChar char

text \<open>
  What the adapter uses and this file does not define: the game made by the abstract
  method \<^verbatim>\<open>make_game\<close> with the pycolab engine's \<^verbatim>\<open>its_showtime\<close>, \<^verbatim>\<open>play\<close>, \<^verbatim>\<open>game_over\<close>,
  \<^verbatim>\<open>the_plot.frame\<close>, \<^verbatim>\<open>things[c].position\<close> and \<^verbatim>\<open>z_order\<close>; the croppers installed by
  the subclass; and \<^verbatim>\<open>scipy.stats.entropy\<close>.  They are parameters of the model.
\<close>

record 'g engine =
  eng_make_game :: 'g
  eng_its_showtime :: "'g \<Rightarrow> 'g \<times> observations \<times> real option"
  eng_play :: "'g \<Rightarrow> int \<Rightarrow> 'g \<times> observations \<times> real option"
  eng_game_over :: "'g \<Rightarrow> bool"
  eng_frame :: "'g \<Rightarrow> int"
  eng_things :: "'g \<Rightarrow> char \<rightharpoonup> coord"
  eng_z_order :: "'g \<Rightarrow> char list"
  eng_croppers :: "('g \<Rightarrow> observations \<Rightarrow> observations) list"
  eng_entropy :: "int list \<Rightarrow> int \<Rightarrow> real"

datatype env_state = MaskState "mask list" | RgbState image

record info =
  info_visitation_frequency :: "char \<rightharpoonup> int"
  info_first_time_visit :: "char \<rightharpoonup> int"
  info_visitation_entropy :: real
  info_episodes :: int
  info_num_obj_eps :: "char \<rightharpoonup> int"

text \<open>
  The attributes of a \<^verbatim>\<open>PyColabEnv\<close>.  \<^verbatim>\<open>objects\<close> and \<^verbatim>\<open>state_layer_chars\<close> are set by the
  subclass; \<^verbatim>\<open>log_heatmaps\<close> exists only once \<^verbatim>\<open>pycolab_init\<close> has run.
\<close>

record 'g env =
  max_iterations :: int
  default_reward :: real
  extrinsic_reward :: real
  extrinsic_reward_spec :: "char \<times> goal"
  extrinsic_coord_based :: bool
  color_palette :: int
  colors :: "(char \<rightharpoonup> color) option"
  render_order :: "char list"
  obs_type :: string
  objects :: "char list"
  state_layer_chars :: "char list"
  visitable_states :: int
  resize_scale :: nat
  current_game :: "'g option"
  state :: "env_state option"
  last_uncropped_observations :: "observations option"
  last_cropped_observations :: "observations option"
  last_reward :: "real option"
  env_game_over :: bool
  visitation_frequency :: "char \<rightharpoonup> int"
  first_visit_time :: "char \<rightharpoonup> int"
  visitation_entropy :: real
  num_obj_eps :: "char \<rightharpoonup> int"
  episodes :: int
  heatmap :: "int list list"
  log_heatmaps :: "bool option"

subsection \<open>Colours and painting\<close>

text \<open>\<^verbatim>\<open>make_colors\<close>: a palette other than 0, 1 or 2 gives \<^verbatim>\<open>None\<close>.\<close>

definition make_colors :: "int \<Rightarrow> (char \<rightharpoonup> color) option" where
  "make_colors palette =
     (if palette = 0 then
        Some (map_of [(CHR ''P'', (255, 255, 255)), (CHR ''a'', (175, 255, 15)),
                      (CHR ''b'', (21, 0, 255)), (CHR ''c'', (255, 0, 0)),
                      (CHR ''d'', (19, 139, 67)), (CHR ''e'', (250, 0, 129)),
                      (CHR ''f'', (114, 206, 227)), (CHR ''g'', (136, 3, 252)),
                      (CHR ''h'', (245, 119, 34)), (CHR ''#'', (61, 61, 61)),
                      (CHR ''@'', (90, 90, 90)), (CHR '' '', (0, 0, 0))])
      else if palette = 1 then
        Some (map_of [(CHR ''P'', (255, 255, 255)), (CHR ''a'', (136, 3, 252)),
                      (CHR ''b'', (21, 0, 255)), (CHR ''c'', (255, 0, 0)),
                      (CHR ''d'', (19, 139, 67)), (CHR ''e'', (150, 0, 129)),
                      (CHR ''#'', (61, 61, 61)), (CHR ''@'', (90, 90, 90)),
                      (CHR '' '', (0, 0, 0))])
      else if palette = 2 then
        Some (map_of [(CHR ''P'', (255, 255, 255)), (CHR ''a'', (255, 0, 0)),
                      (CHR ''b'', (255, 0, 0)), (CHR ''c'', (255, 0, 0)),
                      (CHR ''d'', (255, 0, 0)), (CHR ''e'', (255, 0, 0)),
                      (CHR ''f'', (255, 0, 0)), (CHR ''g'', (255, 0, 0)),
                      (CHR ''h'', (255, 0, 0)), (CHR ''#'', (61, 61, 61)),
                      (CHR ''@'', (90, 90, 90)), (CHR '' '', (0, 0, 0))])
      else None)"

definition shape :: "'a list list \<Rightarrow> nat \<times> nat" where
  "shape xs = (length xs, case xs of [] \<Rightarrow> 0 | row # _ \<Rightarrow> length row)"

text \<open>An array has the shape (h, w) when it has h rows of w entries each.\<close>

definition has_shape :: "nat \<Rightarrow> nat \<Rightarrow> 'a list list \<Rightarrow> bool" where
  "has_shape h w xs = (length xs = h \<and> list_all (\<lambda>row. length row = w) xs)"

definition zeros :: "nat \<Rightarrow> nat \<Rightarrow> int list list" where
  "zeros h w = replicate h (replicate w 0)"

text \<open>
  One round of the loop of \<^verbatim>\<open>_paint_board\<close>, on a board of shape (h, w):
  \<^verbatim>\<open>board = np.where(np.logical_not(board_mask), board_layer_mask * color + perturbation, board)\<close>
  and \<^verbatim>\<open>board_mask = np.logical_or(board_layer_mask, board_mask)\<close>.  The perturbation has
  one value per cell, added to the three channels.
\<close>

definition paint_key :: "nat \<Rightarrow> nat \<Rightarrow> color \<Rightarrow> mask \<Rightarrow> int list list \<Rightarrow> image \<times> mask \<Rightarrow> image \<times> mask" where
  "paint_key h w color board_layer_mask perturbation acc =
     (let board = fst acc; board_mask = snd acc in
      (map (\<lambda>r. map (\<lambda>c.
              if \<not> board_mask ! r ! c then
                (let m = (if board_layer_mask ! r ! c then 1 else 0);
                     p = perturbation ! r ! c
                 in (m * fst color + p, m * fst (snd color) + p, m * snd (snd color) + p))
              else board ! r ! c) [0..<w]) [0..<h],
       map (\<lambda>r. map (\<lambda>c. board_layer_mask ! r ! c \<or> board_mask ! r ! c) [0..<w]) [0..<h]))"

text \<open>
  The loop over \<^verbatim>\<open>self._render_order\<close>.  \<open>noise i\<close> is the array that
  \<^verbatim>\<open>np.random.randint(-15, 15, (h, w, 1))\<close> returns in round \<open>i\<close>; it is drawn only for the
  key \<^verbatim>\<open>'@'\<close>.  \<^verbatim>\<open>self._colors.get\<close> raises when \<^verbatim>\<open>make_colors\<close> returned \<^verbatim>\<open>None\<close>, a key
  without a layer raises \<^verbatim>\<open>KeyError\<close>.  The model covers layers of the board's shape only:
  on any other shape, where numpy broadcasts or raises, it gives \<^verbatim>\<open>ValueError\<close>.
\<close>

fun paint_loop :: "nat \<Rightarrow> nat \<Rightarrow> (char \<rightharpoonup> color) option \<Rightarrow> (char \<rightharpoonup> mask) \<Rightarrow> (nat \<Rightarrow> int list list)
    \<Rightarrow> nat \<Rightarrow> char list \<Rightarrow> image \<times> mask \<Rightarrow> py_error + image \<times> mask" where
  "paint_loop h w cols lays noise i [] acc = Inr acc"
| "paint_loop h w cols lays noise i (key # keys) acc =
     (case cols of
        None \<Rightarrow> Inl AttributeError
      | Some palette \<Rightarrow>
          (case lays key of
             None \<Rightarrow> Inl KeyError
           | Some board_layer_mask \<Rightarrow>
               if \<not> has_shape h w board_layer_mask then Inl ValueError
               else
                 let color = (case palette key of Some col \<Rightarrow> col | None \<Rightarrow> (0, 0, 0));
                     perturbation = (if key = CHR ''@'' then noise i else zeros h w)
                 in paint_loop h w cols lays noise (Suc i) keys
                      (paint_key h w color board_layer_mask perturbation acc)))"

definition paint_board :: "'g env \<Rightarrow> (char \<rightharpoonup> mask) \<Rightarrow> bool \<Rightarrow> (nat \<Rightarrow> int list list) \<Rightarrow> py_error + image" where
  "paint_board env lays cropped noise =
     (case (if \<not> cropped then last_uncropped_observations env
            else last_cropped_observations env) of
        None \<Rightarrow> Inl AttributeError
      | Some obs \<Rightarrow>
          (let h = fst (shape (obs_board obs)); w = snd (shape (obs_board obs)) in
           case paint_loop h w (colors env) lays noise 0 (render_order env)
                  (replicate h (replicate w (0, 0, 0)), replicate h (replicate w False)) of
             Inl err \<Rightarrow> Inl err
           | Inr acc \<Rightarrow> Inr (fst acc)))"

text \<open>
  \<^verbatim>\<open>resize\<close>: every pixel becomes a square of \<^verbatim>\<open>resize_scale\<close> pixels, and the values are
  cast to \<^verbatim>\<open>uint8\<close>.
\<close>

definition repeat_axes :: "nat \<Rightarrow> 'a list list \<Rightarrow> 'a list list" where
  "repeat_axes factor x = concat (map (\<lambda>row. replicate factor (concat (map (replicate factor) row))) x)"

definition uint8 :: "int \<Rightarrow> int" where
  "uint8 v = v mod 256"

definition resize :: "'g env \<Rightarrow> image \<Rightarrow> image" where
  "resize env img =
     map (map (\<lambda>px. (uint8 (fst px), uint8 (fst (snd px)), uint8 (snd (snd px)))))
       (repeat_axes (resize_scale env) img)"

subsection \<open>Construction\<close>

text \<open>
  \<^verbatim>\<open>__init__\<close>.  \<open>spec\<close> is \<^verbatim>\<open>extrinsic_reward_spec\<close>, whose default \<^verbatim>\<open>None\<close> cannot be
  subscripted.  The render order is the reversed list of the layers that are not in the
  z-order (in the order \<open>keys\<close> lists them) followed by the z-order.
\<close>

definition init :: "'g engine \<Rightarrow> int \<Rightarrow> string \<Rightarrow> real \<Rightarrow> nat \<Rightarrow> int \<Rightarrow> real \<Rightarrow> (char \<times> goal) option
    \<Rightarrow> int \<Rightarrow> char list \<Rightarrow> char list \<Rightarrow> char list \<Rightarrow> py_error + 'g env" where
  "init eng max_iter otype default_rew scale visitable ext_reward spec palette objs chars keys =
     (if \<not> max_iter > 0 then Inl AssertionError
      else case spec of
        None \<Rightarrow> Inl TypeError
      | Some sp \<Rightarrow>
          (let test_game = fst (eng_its_showtime eng (eng_make_game eng));
               not_ordered = filter (\<lambda>k. k \<notin> set (eng_z_order eng test_game)) (remdups keys)
           in Inr \<lparr>max_iterations = max_iter,
                   default_reward = default_rew,
                   extrinsic_reward = ext_reward,
                   extrinsic_reward_spec = sp,
                   extrinsic_coord_based = (case snd sp of GoalCoord _ \<Rightarrow> True | GoalChar _ \<Rightarrow> False),
                   color_palette = palette,
                   colors = make_colors palette,
                   render_order = rev (not_ordered @ eng_z_order eng test_game),
                   obs_type = otype,
                   objects = objs,
                   state_layer_chars = chars,
                   visitable_states = visitable,
                   resize_scale = scale,
                   current_game = None,
                   state = None,
                   last_uncropped_observations = None,
                   last_cropped_observations = None,
                   last_reward = None,
                   env_game_over = False,
                   visitation_frequency = map_of (map (\<lambda>ch. (ch, 0)) objs),
                   first_visit_time = map_of (map (\<lambda>ch. (ch, 500)) objs),
                   visitation_entropy = 0,
                   num_obj_eps = map_of (map (\<lambda>ch. (ch, 0)) objs),
                   episodes = 0,
                   heatmap = replicate 5 (replicate 5 1),
                   log_heatmaps = None\<rparr>))"

text \<open>\<^verbatim>\<open>pycolab_init\<close> (the directory it creates is not modelled).\<close>

definition pycolab_init :: "bool \<Rightarrow> 'g env \<Rightarrow> 'g env" where
  "pycolab_init log_heatmaps_arg env = env\<lparr>log_heatmaps := Some log_heatmaps_arg\<rparr>"

subsection \<open>One environment interaction\<close>

text \<open>\<^verbatim>\<open>1. in mask\<close>: some cell of the layer is set.\<close>

definition contains_one :: "mask \<Rightarrow> bool" where
  "contains_one m = list_ex (list_ex (\<lambda>x. x)) m"

text \<open>
  The loop over \<^verbatim>\<open>self.state_layer_chars\<close> for the observation type \<^verbatim>\<open>'mask'\<close>; it carries
  the reward, the visitation counters and the list \<^verbatim>\<open>self._state\<close>.
\<close>

fun mask_loop :: "'g env \<Rightarrow> observations \<Rightarrow> char list \<Rightarrow> real option \<times> (char \<rightharpoonup> int) \<times> mask list
    \<Rightarrow> py_error + real option \<times> (char \<rightharpoonup> int) \<times> mask list" where
  "mask_loop env obs [] acc = Inr acc"
| "mask_loop env obs (char # chars) (reward, vf, st) =
     (if char \<noteq> CHR '' '' then
        (case layers obs char of
           None \<Rightarrow> Inl KeyError
         | Some m \<Rightarrow>
             if char \<in> set (objects env) \<and> contains_one m then
               (case vf char of
                  None \<Rightarrow> Inl KeyError
                | Some n \<Rightarrow>
                    mask_loop env obs chars
                      (if \<not> extrinsic_coord_based env \<and> GoalChar char = snd (extrinsic_reward_spec env)
                       then Some (extrinsic_reward env) else reward,
                       vf(char \<mapsto> n + 1), st @ [m]))
             else mask_loop env obs chars (reward, vf, st @ [m]))
      else mask_loop env obs chars (reward, vf, st))"

text \<open>The same loop for the observation type \<^verbatim>\<open>'rgb'\<close>.\<close>

fun rgb_loop :: "'g env \<Rightarrow> observations \<Rightarrow> char list \<Rightarrow> real option \<times> (char \<rightharpoonup> int)
    \<Rightarrow> py_error + real option \<times> (char \<rightharpoonup> int)" where
  "rgb_loop env obs [] acc = Inr acc"
| "rgb_loop env obs (char # chars) (reward, vf) =
     (if char \<noteq> CHR '' '' then
        (case layers obs char of
           None \<Rightarrow> Inl KeyError
         | Some m \<Rightarrow>
             if char \<in> set (objects env) \<and> contains_one m then
               (case vf char of
                  None \<Rightarrow> Inl KeyError
                | Some n \<Rightarrow>
                    rgb_loop env obs chars
                      (if extrinsic_reward env > 0 \<and> \<not> extrinsic_coord_based env
                          \<and> GoalChar char = snd (extrinsic_reward_spec env)
                       then Some (extrinsic_reward env) else reward,
                       vf(char \<mapsto> n + 1)))
             else rgb_loop env obs chars (reward, vf))
      else rgb_loop env obs chars (reward, vf))"

text \<open>
  numpy's \<^verbatim>\<open>a[i, j] += 1\<close>: a negative index counts from the end, an index out of range
  raises \<^verbatim>\<open>IndexError\<close>.
\<close>

definition np_index :: "nat \<Rightarrow> int \<Rightarrow> nat option" where
  "np_index n i =
     (if 0 \<le> i \<and> i < int n then Some (nat i)
      else if - int n \<le> i \<and> i < 0 then Some (nat (int n + i))
      else None)"

definition heatmap_incr :: "int list list \<Rightarrow> coord \<Rightarrow> py_error + int list list" where
  "heatmap_incr hm p =
     (case np_index (fst (shape hm)) (fst p) of
        None \<Rightarrow> Inl IndexError
      | Some r \<Rightarrow>
          (case np_index (snd (shape hm)) (snd p) of
             None \<Rightarrow> Inl IndexError
           | Some c \<Rightarrow> Inr (hm[r := (hm ! r)[c := hm ! r ! c + 1]])))"

text \<open>
  \<^verbatim>\<open>_update_for_game_step\<close>, in four stages as in the source: the coordinate-based
  extrinsic reward; the observation and the counters; the heat map; the reward and the
  game-over flag.
\<close>

definition coordinate_reward :: "'g engine \<Rightarrow> 'g env \<Rightarrow> 'g \<Rightarrow> real option \<Rightarrow> py_error + real option" where
  "coordinate_reward eng env g reward =
     (if extrinsic_reward env > 0 \<and> extrinsic_coord_based env then
        (case eng_things eng g (fst (extrinsic_reward_spec env)) of
           None \<Rightarrow> Inl KeyError
         | Some pos \<Rightarrow>
             if GoalCoord pos = snd (extrinsic_reward_spec env)
             then Inr (Some (extrinsic_reward env)) else Inr reward)
      else Inr reward)"

definition observe :: "'g env \<Rightarrow> (nat \<Rightarrow> int list list) \<Rightarrow> observations \<Rightarrow> real option
    \<Rightarrow> py_error + 'g env \<times> real option" where
  "observe env noise obs reward =
     (if obs_type env = ''mask'' then
        (case mask_loop env obs (state_layer_chars env) (reward, visitation_frequency env, []) of
           Inl err \<Rightarrow> Inl err
         | Inr (reward', vf, st) \<Rightarrow>
             Inr (env\<lparr>state := Some (MaskState st), visitation_frequency := vf\<rparr>, reward'))
      else if obs_type env = ''rgb'' then
        (case paint_board env (layers obs) True noise of
           Inl err \<Rightarrow> Inl err
         | Inr rgb_img \<Rightarrow>
             (case rgb_loop env obs (state_layer_chars env) (reward, visitation_frequency env) of
                Inl err \<Rightarrow> Inl err
              | Inr (reward', vf) \<Rightarrow>
                  Inr (env\<lparr>state := Some (RgbState (resize env rgb_img)),
                           visitation_frequency := vf\<rparr>, reward')))
      else Inr (env, reward))"

definition update_heatmap :: "'g engine \<Rightarrow> 'g \<Rightarrow> 'g env \<Rightarrow> py_error + 'g env" where
  "update_heatmap eng g env =
     (case log_heatmaps env of
        None \<Rightarrow> Inl AttributeError
      | Some logging \<Rightarrow>
          if logging then
            (case eng_things eng g CHR ''P'' of
               None \<Rightarrow> Inl KeyError
             | Some p \<Rightarrow>
                 (case heatmap_incr (heatmap env) p of
                    Inl err \<Rightarrow> Inl err
                  | Inr hm \<Rightarrow>
                      Inr (env\<lparr>heatmap := hm,
                               visitation_entropy :=
                                 eng_entropy eng (concat hm) (visitable_states env)\<rparr>)))
          else Inr env)"

definition update_for_game_step :: "'g engine \<Rightarrow> (nat \<Rightarrow> int list list) \<Rightarrow> 'g env \<Rightarrow> observations
    \<Rightarrow> real option \<Rightarrow> py_error + 'g env" where
  "update_for_game_step eng noise env obs reward =
     (case current_game env of
        None \<Rightarrow> Inl AttributeError
      | Some g \<Rightarrow>
          (case coordinate_reward eng env g reward of
             Inl err \<Rightarrow> Inl err
           | Inr reward1 \<Rightarrow>
               (case observe env noise obs reward1 of
                  Inl err \<Rightarrow> Inl err
                | Inr (env1, reward2) \<Rightarrow>
                    (case update_heatmap eng g env1 of
                       Inl err \<Rightarrow> Inl err
                     | Inr env2 \<Rightarrow>
                         Inr (env2\<lparr>last_reward :=
                                     Some (case reward2 of Some x \<Rightarrow> x
                                           | None \<Rightarrow> default_reward env2),
                                   env_game_over :=
                                     (if eng_frame eng g \<ge> max_iterations env2 then True
                                      else eng_game_over eng g)\<rparr>)))))"

subsection \<open>\<^verbatim>\<open>reset\<close> and \<^verbatim>\<open>step\<close>\<close>

text \<open>
  The loop of \<^verbatim>\<open>reset\<close> that counts, for every object, the episodes in which it was seen.
\<close>

fun count_episodes :: "(char \<rightharpoonup> int) \<Rightarrow> char list \<Rightarrow> (char \<rightharpoonup> int) \<Rightarrow> py_error + (char \<rightharpoonup> int)" where
  "count_episodes vf [] num = Inr num"
| "count_episodes vf (char # chars) num =
     (case vf char of
        None \<Rightarrow> Inl KeyError
      | Some n \<Rightarrow>
          if n > 0 then
            (case num char of
               None \<Rightarrow> Inl KeyError
             | Some k \<Rightarrow> count_episodes vf chars (num(char \<mapsto> k + 1)))
          else count_episodes vf chars num)"

text \<open>
  \<^verbatim>\<open>cropper.crop(observations)\<close> for every cropper, of which the first result is used.
\<close>

definition crop_observations :: "'g engine \<Rightarrow> 'g \<Rightarrow> observations \<Rightarrow> observations option" where
  "crop_observations eng g obs =
     (case eng_croppers eng of [] \<Rightarrow> None | cropper # _ \<Rightarrow> Some (cropper g obs))"

text \<open>
  \<^verbatim>\<open>reset\<close>.  Writing the heat map to disk is not modelled; \<^verbatim>\<open>self._game_over = None\<close> is
  overwritten by the update before \<^verbatim>\<open>reset\<close> returns.
\<close>

definition reset :: "'g engine \<Rightarrow> (nat \<Rightarrow> int list list) \<Rightarrow> 'g env \<Rightarrow> py_error + 'g env \<times> env_state option" where
  "reset eng noise env =
     (case eng_its_showtime eng (eng_make_game eng) of
        (g, observations, reward) \<Rightarrow>
          (let env1 = env\<lparr>current_game := Some g, colors := make_colors (color_palette env),
                          env_game_over := False, last_reward := None,
                          last_uncropped_observations := Some observations\<rparr>;
               cropped = crop_observations eng g observations;
               env2 = (case cropped of None \<Rightarrow> env1
                       | Some obs \<Rightarrow> env1\<lparr>last_cropped_observations := Some obs\<rparr>);
               obs = (case cropped of None \<Rightarrow> observations | Some obs \<Rightarrow> obs)
           in case count_episodes (visitation_frequency env2) (objects env2) (num_obj_eps env2) of
                Inl err \<Rightarrow> Inl err
              | Inr num \<Rightarrow>
                  (case log_heatmaps env2 of
                     None \<Rightarrow> Inl AttributeError
                   | Some _ \<Rightarrow>
                       (let env3 = env2\<lparr>num_obj_eps := num,
                                        visitation_frequency := map_of (map (\<lambda>ch. (ch, 0)) (objects env2)),
                                        episodes := episodes env2 + 1,
                                        heatmap := zeros (fst (shape (obs_board observations)))
                                                     (snd (shape (obs_board observations)))\<rparr>
                        in case update_for_game_step eng noise env3 obs reward of
                             Inl err \<Rightarrow> Inl err
                           | Inr env4 \<Rightarrow> Inr (env4, state env4)))))"

text \<open>
  \<^verbatim>\<open>step\<close> returns the state, the reward, the done flag and the info dictionary
  (\<^verbatim>\<open>None\<close> stands for the empty one).
\<close>

definition step :: "'g engine \<Rightarrow> (nat \<Rightarrow> int list list) \<Rightarrow> 'g env \<Rightarrow> int
    \<Rightarrow> py_error + 'g env \<times> env_state option \<times> real option \<times> bool \<times> info option" where
  "step eng noise env action =
     (case current_game env of
        None \<Rightarrow>
          Inr (env\<lparr>state := None\<rparr>, None, last_reward env, env_game_over env, None)
      | Some g \<Rightarrow>
          (case eng_play eng g action of
             (g', observations, reward) \<Rightarrow>
               (let env1 = env\<lparr>current_game := Some g',
                               last_uncropped_observations := Some observations\<rparr>;
                    cropped = crop_observations eng g' observations;
                    env2 = (case cropped of None \<Rightarrow> env1
                            | Some obs \<Rightarrow> env1\<lparr>last_cropped_observations := Some obs\<rparr>);
                    obs = (case cropped of None \<Rightarrow> observations | Some obs \<Rightarrow> obs)
                in case update_for_game_step eng noise env2 obs reward of
                     Inl err \<Rightarrow> Inl err
                   | Inr env3 \<Rightarrow>
                       Inr (if env_game_over env3 then env3\<lparr>current_game := None\<rparr> else env3,
                            state env3, last_reward env3, env_game_over env3,
                            Some \<lparr>info_visitation_frequency = visitation_frequency env3,
                                  info_first_time_visit = first_visit_time env3,
                                  info_visitation_entropy = visitation_entropy env3,
                                  info_episodes = episodes env3,
                                  info_num_obj_eps = num_obj_eps env3\<rparr>))))"

subsection \<open>Vocabulary for the properties of the adapter\<close>

text \<open>
  The first layer of the render order whose mask covers the cell (r, c), with its round
  of the painting loop, counted from \<open>i\<close>.
\<close>

fun first_cover :: "(char \<rightharpoonup> mask) \<Rightarrow> nat \<Rightarrow> nat \<Rightarrow> nat \<Rightarrow> char list \<Rightarrow> (nat \<times> char) option" where
  "first_cover lays r c i [] = None"
| "first_cover lays r c i (key # keys) =
     (if (case lays key of Some m \<Rightarrow> m ! r ! c | None \<Rightarrow> False) then Some (i, key)
      else first_cover lays r c (Suc i) keys)"

text \<open>The configured colour of a key, black when it has none.\<close>

definition color_of :: "(char \<rightharpoonup> color) option \<Rightarrow> char \<Rightarrow> color" where
  "color_of cols key =
     (case cols of None \<Rightarrow> (0, 0, 0)
      | Some palette \<Rightarrow> (case palette key of Some col \<Rightarrow> col | None \<Rightarrow> (0, 0, 0)))"

definition tint :: "color \<Rightarrow> int \<Rightarrow> color" where
  "tint col p = (fst col + p, fst (snd col) + p, snd (snd col) + p)"

text \<open>
  What the last round of the loop leaves on a cell that no layer covers: its perturbation,
  which is zero unless the last key is \<^verbatim>\<open>'@'\<close>.
\<close>

definition leftover :: "(nat \<Rightarrow> int list list) \<Rightarrow> nat \<Rightarrow> char list \<Rightarrow> nat \<Rightarrow> nat \<Rightarrow> int" where
  "leftover noise i keys r c =
     (if keys \<noteq> [] \<and> last keys = CHR ''@'' then noise (i + length keys - 1) ! r ! c else 0)"

text \<open>
  Where \<^verbatim>\<open>_paint_board\<close> takes the shape of the board from.
\<close>

definition painted_shape :: "'g env \<Rightarrow> bool \<Rightarrow> nat \<times> nat" where
  "painted_shape env cropped =
     (case (if \<not> cropped then last_uncropped_observations env
            else last_cropped_observations env) of
        None \<Rightarrow> (0, 0)
      | Some obs \<Rightarrow> shape (obs_board obs))"

subsection \<open>A small world to run the adapter on\<close>

text \<open>
  A game on a board of one row and three cells: an object \<^verbatim>\<open>'a'\<close> that is visible on the
  first cell or not, a white-noise cell \<^verbatim>\<open>'@'\<close> and a floor cell.  The game state is the
  frame counter; the object is visible at show time and after action 1; action 2 gives no
  reward, every other action the reward 1.
\<close>

definition toy_obs :: "bool \<Rightarrow> observations" where
  "toy_obs visible =
     \<lparr>layers = [CHR ''a'' \<mapsto> [[visible, False, False]],
                 CHR ''@'' \<mapsto> [[False, True, False]],
                 CHR '' '' \<mapsto> [[\<not> visible, False, True]]],
      obs_board = [if visible then ''a@ '' else '' @ '']\<rparr>"

definition toy_engine :: "nat engine" where
  "toy_engine =
     \<lparr>eng_make_game = 0,
      eng_its_showtime = (\<lambda>g. (0, toy_obs True, None)),
      eng_play = (\<lambda>g a. (Suc g, toy_obs (a = 1), if a = 2 then None else Some 1)),
      eng_game_over = (\<lambda>g. False),
      eng_frame = int,
      eng_things = (\<lambda>g. [CHR ''P'' \<mapsto> (0, 2), CHR ''a'' \<mapsto> (0, 0)]),
      eng_z_order = (\<lambda>g. ''a@''),
      eng_croppers = [\<lambda>g obs. obs],
      eng_entropy = (\<lambda>xs b. 0)\<rparr>"

definition toy_noise :: "nat \<Rightarrow> int list list" where
  "toy_noise i = [[3, -15, 14]]"

text \<open>
  The adapter of the small world: at most two iterations, extrinsic reward \<open>x\<close> for
  seeing the object \<^verbatim>\<open>'a'\<close>, default reward 1/2.
\<close>

definition toy_env :: "string \<Rightarrow> real \<Rightarrow> nat env" where
  "toy_env otype x =
     pycolab_init True
       (projr (init toy_engine 2 otype (1 / 2) 2 3 x (Some (CHR ''P'', GoalChar CHR ''a'')) 0
                 ''a'' ''a@'' ''a@ ''))"

text \<open>
  A world whose cropper pads the board with a cell that no layer covers, and whose only
  layers are the two sprites of the z-order \<^verbatim>\<open>'@a'\<close>.
\<close>

definition padded_obs :: observations where
  "padded_obs =
     \<lparr>layers = [CHR ''@'' \<mapsto> [[True, False, False]], CHR ''a'' \<mapsto> [[False, True, False]]],
      obs_board = [''@a '']\<rparr>"

definition padded_engine :: "nat engine" where
  "padded_engine =
     \<lparr>eng_make_game = 0,
      eng_its_showtime = (\<lambda>g. (0, padded_obs, None)),
      eng_play = (\<lambda>g a. (Suc g, padded_obs, None)),
      eng_game_over = (\<lambda>g. False),
      eng_frame = int,
      eng_things = (\<lambda>g. [CHR ''a'' \<mapsto> (0, 1)]),
      eng_z_order = (\<lambda>g. ''@a''),
      eng_croppers = [\<lambda>g obs. obs],
      eng_entropy = (\<lambda>xs b. 0)\<rparr>"

definition padded_env :: "nat env" where
  "padded_env =
     (projr (init padded_engine 3 ''rgb'' 0 1 3 0 (Some (CHR ''a'', GoalChar CHR ''a'')) 0
               ''a'' ''a'' ''@a''))
       \<lparr>last_cropped_observations := Some padded_obs\<rparr>"

text \<open>A draw of the white-noise round that is negative on the third cell.\<close>

definition dark_noise :: "nat \<Rightarrow> int list list" where
  "dark_noise i = [[3, -15, -7]]"

text \<open>The adapter of the small world after its first \<^verbatim>\<open>reset\<close>.\<close>

definition toy_started :: "string \<Rightarrow> real \<Rightarrow> nat env" where
  "toy_started otype x = fst (projr (reset toy_engine toy_noise (toy_env otype x)))"

text \<open>The components of what \<^verbatim>\<open>step\<close> returns.\<close>

definition step_env :: "'g env \<times> env_state option \<times> real option \<times> bool \<times> info option \<Rightarrow> 'g env" where
  "step_env res = fst res"

definition step_state :: "'g env \<times> env_state option \<times> real option \<times> bool \<times> info option \<Rightarrow> env_state option" where
  "step_state res = fst (snd res)"

definition step_reward :: "'g env \<times> env_state option \<times> real option \<times> bool \<times> info option \<Rightarrow> real option" where
  "step_reward res = fst (snd (snd res))"

definition step_done :: "'g env \<times> env_state option \<times> real option \<times> bool \<times> info option \<Rightarrow> bool" where
  "step_done res = fst (snd (snd (snd res)))"

definition step_info :: "'g env \<times> env_state option \<times> real option \<times> bool \<times> info option \<Rightarrow> info option" where
  "step_info res = snd (snd (snd (snd res)))"

text \<open>
  The observation that \<^verbatim>\<open>_update_for_game_step\<close> receives: the cropped one when there is a
  cropper.
\<close>

definition used_observation :: "'g engine \<Rightarrow> 'g \<Rightarrow> observations \<Rightarrow> observations" where
  "used_observation eng g observations =
     (case crop_observations eng g observations of None \<Rightarrow> observations | Some obs \<Rightarrow> obs)"

text \<open>An object's layer is visible in an observation: the layer contains a 1.\<close>

definition seen :: "char \<Rightarrow> observations \<Rightarrow> bool" where
  "seen ch obs = (case layers obs ch of Some m \<Rightarrow> contains_one m | None \<Rightarrow> False)"

text \<open>
  The goal of a coordinate-based specification is reached: the named sprite stands on the
  goal coordinate.  The goal of a character-based specification is visible: the goal
  character is one of the objects, is listed in \<^verbatim>\<open>state_layer_chars\<close>, and its layer is
  visible.
\<close>

definition goal_reached :: "'g engine \<Rightarrow> 'g env \<Rightarrow> 'g \<Rightarrow> bool" where
  "goal_reached eng env g =
     (case snd (extrinsic_reward_spec env) of
        GoalCoord p \<Rightarrow> eng_things eng g (fst (extrinsic_reward_spec env)) = Some p
      | GoalChar _ \<Rightarrow> False)"

definition goal_visible :: "'g env \<Rightarrow> observations \<Rightarrow> bool" where
  "goal_visible env obs =
     (case snd (extrinsic_reward_spec env) of
        GoalCoord _ \<Rightarrow> False
      | GoalChar ch \<Rightarrow>
          ch \<in> set (state_layer_chars env) \<and> ch \<noteq> CHR '' '' \<and> ch \<in> set (objects env)
          \<and> seen ch obs)"

text \<open>The reward of the game, or the default reward when the game gave none.\<close>

definition game_reward :: "'g env \<Rightarrow> real option \<Rightarrow> real" where
  "game_reward env reward = (case reward of Some x \<Rightarrow> x | None \<Rightarrow> default_reward env)"

text \<open>
  A sequence of steps, each with its random draws and its action, and the done flags they
  return.
\<close>

fun steps :: "'g engine \<Rightarrow> 'g env \<Rightarrow> ((nat \<Rightarrow> int list list) \<times> int) list \<Rightarrow> py_error + 'g env \<times> bool list" where
  "steps eng env [] = Inr (env, [])"
| "steps eng env ((noise, action) # rest) =
     (case step eng noise env action of
        Inl err \<Rightarrow> Inl err
      | Inr res \<Rightarrow>
          (case steps eng (step_env res) rest of
             Inl err \<Rightarrow> Inl err
           | Inr (env', dones) \<Rightarrow> Inr (env', step_done res # dones)))"

text \<open>
  A sequence of \<^verbatim>\<open>reset\<close> and \<^verbatim>\<open>step\<close> calls.  Beside the adapter it returns the
  observations of the updates so far, one list per episode, the current episode and its
  latest update first.
\<close>

datatype operation = Reset "nat \<Rightarrow> int list list" | Step "nat \<Rightarrow> int list list" int

fun run :: "'g engine \<Rightarrow> 'g env \<times> observations list list \<Rightarrow> operation list
    \<Rightarrow> py_error + 'g env \<times> observations list list" where
  "run eng (env, episodes_log) [] = Inr (env, episodes_log)"
| "run eng (env, episodes_log) (Reset noise # ops) =
     (case reset eng noise env of
        Inl err \<Rightarrow> Inl err
      | Inr (env', st) \<Rightarrow>
          (case eng_its_showtime eng (eng_make_game eng) of
             (g, observations, reward) \<Rightarrow>
               run eng (env', [used_observation eng g observations] # episodes_log) ops))"
| "run eng (env, episodes_log) (Step noise action # ops) =
     (case step eng noise env action of
        Inl err \<Rightarrow> Inl err
      | Inr res \<Rightarrow>
          (case current_game env of
             None \<Rightarrow> run eng (step_env res, episodes_log) ops
           | Some g0 \<Rightarrow>
               (case eng_play eng g0 action of
                  (g, observations, reward) \<Rightarrow>
                    run eng (step_env res,
                             (case episodes_log of
                                [] \<Rightarrow> [[used_observation eng g observations]]
                              | ep # eps \<Rightarrow> (used_observation eng g observations # ep) # eps))
                        ops)))"

text \<open>
  The number of updates of the current episode in which the object was visible, and the
  number of finished episodes in which it was visible at least once.
\<close>

definition visits :: "char \<Rightarrow> observations list list \<Rightarrow> int" where
  "visits ch episodes_log =
     (case episodes_log of [] \<Rightarrow> 0 | ep # _ \<Rightarrow> int (length (filter (seen ch) ep)))"

definition visited_episodes :: "char \<Rightarrow> observations list list \<Rightarrow> int" where
  "visited_episodes ch episodes_log =
     (case episodes_log of [] \<Rightarrow> 0
      | _ # eps \<Rightarrow> int (length (filter (\<lambda>ep. list_ex (seen ch) ep) eps)))"

text \<open>
  Some character of the list is an object whose layer is visible and which is the goal
  character; a character is counted by the loop over the list.
\<close>

definition char_goal :: "'g env \<Rightarrow> observations \<Rightarrow> char list \<Rightarrow> bool" where
  "char_goal env obs chars =
     list_ex (\<lambda>ch. ch \<noteq> CHR '' '' \<and> ch \<in> set (objects env) \<and> seen ch obs
        \<and> GoalChar ch = snd (extrinsic_reward_spec env)) chars"

definition counted :: "'g env \<Rightarrow> observations \<Rightarrow> char list \<Rightarrow> char \<Rightarrow> bool" where
  "counted env obs chars c =
     (c \<in> set chars \<and> c \<noteq> CHR '' '' \<and> c \<in> set (objects env) \<and> seen c obs)"

text \<open>
  What the counters of an object \<open>c\<close> need from the attributes that the subclass sets:
  a known observation type, no character listed twice, and \<open>c\<close> an object among the state
  layers.
\<close>

definition well_configured :: "'g env \<Rightarrow> char \<Rightarrow> bool" where
  "well_configured env c =
     ((obs_type env = ''mask'' \<or> obs_type env = ''rgb'')
      \<and> distinct (state_layer_chars env) \<and> distinct (objects env)
      \<and> c \<in> set (objects env) \<and> c \<in> set (state_layer_chars env) \<and> c \<noteq> CHR '' '')"

text \<open>The adapter of the small world after its first \<^verbatim>\<open>reset\<close> and the given steps.\<close>

definition toy_after :: "string \<Rightarrow> real \<Rightarrow> int list \<Rightarrow> nat env" where
  "toy_after otype x actions =
     foldl (\<lambda>env action. step_env (projr (step toy_engine toy_noise env action)))
       (toy_started otype x) actions"

text \<open>Two episodes of the small world, and the observations of their updates.\<close>

definition toy_operations :: "operation list" where
  "toy_operations =
     [Reset toy_noise, Step toy_noise 0, Step toy_noise 1, Step toy_noise 1, Reset toy_noise,
      Step toy_noise 0]"

definition toy_log :: "observations list list" where
  "toy_log = [[toy_obs False, toy_obs True], [toy_obs True, toy_obs False, toy_obs True]]"

section \<open>Random network distillation\<close>

text \<open>
  Source: \<^verbatim>\<open>rlpyt/models/curiosity/rnd.py\<close>.  Tensors and arrays are lists, and their
  floating-point entries are modelled by real numbers: rounding, infinities and NaN are
  outside the model.  An observation image is the list of its pixels.
\<close>

type_synonym pixels = "real list"

text \<open>A parameter tensor of a network, with its \<^verbatim>\<open>requires_grad\<close> flag.\<close>

record param =
  param_data :: "real list"
  requires_grad :: bool

text \<open>
  The attributes of \<^verbatim>\<open>RunningMeanStd\<close> and \<^verbatim>\<open>RewardForwardFilter\<close> objects
  (\<^verbatim>\<open>rlpyt.utils.averages\<close>).
\<close>

record 'a running_mean_std =
  rms_mean :: 'a
  rms_var :: 'a
  rms_count :: real

record reward_forward_filter =
  rewems :: "real list option"
  rff_gamma :: real

text \<open>
  What the module uses and this file does not define: the two networks as functions of
  their parameters (\<^verbatim>\<open>nn.Sequential\<close>), \<^verbatim>\<open>RunningMeanStd.update\<close>,
  \<^verbatim>\<open>RunningMeanStd.update_from_moments\<close> and \<^verbatim>\<open>RewardForwardFilter.update\<close>.  They are
  parameters of the model.
\<close>

record rnd_ops =
  net_target :: "param list \<Rightarrow> pixels \<Rightarrow> real list"
  net_forward :: "param list \<Rightarrow> pixels \<Rightarrow> real list"
  update_obs_rms :: "pixels running_mean_std \<Rightarrow> pixels list \<Rightarrow> pixels running_mean_std"
  update_rew_rms_from_moments ::
    "real running_mean_std \<Rightarrow> real \<Rightarrow> real \<Rightarrow> real \<Rightarrow> real running_mean_std"
  update_rew_rff ::
    "reward_forward_filter \<Rightarrow> real list \<Rightarrow> real list \<Rightarrow> reward_forward_filter \<times> real list"

record rnd =
  prediction_beta :: real
  drop_probability :: real
  feature_size :: nat
  conv_feature_size :: nat
  obs_rms :: "pixels running_mean_std"
  rew_rms :: "real running_mean_std"
  rew_rff :: reward_forward_filter
  forward_model :: "param list"
  target_model :: "param list"

text \<open>
  \<^verbatim>\<open>__init__\<close>.  The freshly constructed statistics objects and the initialised parameters
  of the two networks are given; \<^verbatim>\<open>obs_stats\<close> overrides the mean and the variance of the
  observation statistics, and every parameter of the target network gets
  \<^verbatim>\<open>requires_grad = False\<close>.
\<close>

definition rnd_init :: "(pixels \<times> pixels) option \<Rightarrow> real \<Rightarrow> real \<Rightarrow> real \<Rightarrow> pixels running_mean_std
    \<Rightarrow> real running_mean_std \<Rightarrow> param list \<Rightarrow> param list \<Rightarrow> rnd" where
  "rnd_init obs_stats beta drop_prob gam fresh_obs_rms fresh_rew_rms forward_params target_params =
     \<lparr>prediction_beta = beta,
      drop_probability = drop_prob,
      feature_size = 512,
      conv_feature_size = 7 * 7 * 64,
      obs_rms = (case obs_stats of
                   None \<Rightarrow> fresh_obs_rms
                 | Some (m, s) \<Rightarrow> fresh_obs_rms\<lparr>rms_mean := m, rms_var := map (\<lambda>x. x ^ 2) s\<rparr>),
      rew_rms = fresh_rew_rms,
      rew_rff = \<lparr>rewems = None, rff_gamma = gam\<rparr>,
      forward_model = forward_params,
      target_model = map (\<lambda>p. p\<lparr>requires_grad := False\<rparr>) target_params\<rparr>"

subsection \<open>\<^verbatim>\<open>forward\<close>\<close>

text \<open>
  \<^verbatim>\<open>norm_obs = clamp((obs - obs_mean) / (sqrt(obs_var) + 1e-10), -5, 5)\<close>, pixel by pixel.
\<close>

definition clamp :: "real \<Rightarrow> real \<Rightarrow> real \<Rightarrow> real" where
  "clamp x lo hi = min (max x lo) hi"

definition normalize_obs :: "pixels running_mean_std \<Rightarrow> pixels \<Rightarrow> pixels" where
  "normalize_obs rms x =
     map (\<lambda>i. clamp ((x ! i - rms_mean rms ! i) / (sqrt (rms_var rms ! i) + 1 / 10 ^ 10)) (- 5) 5)
       [0..<length x]"

text \<open>Column \<open>b\<close> of an array with leading dimensions [T, B]: \<^verbatim>\<open>np.swapaxes(a, 0, 1)[b]\<close>.\<close>

definition column :: "nat \<Rightarrow> 'a list list \<Rightarrow> 'a list" where
  "column b a = map (\<lambda>row. row ! b) a"

text \<open>\<^verbatim>\<open>num_not_done = np.sum(np.abs(done - 1), axis=0)\<close>: one number per column.\<close>

definition num_not_done :: "real list list \<Rightarrow> real list" where
  "num_not_done d = map (\<lambda>b. sum_list (map (\<lambda>x. \<bar>x - 1\<bar>) (column b d))) [0..<snd (shape d)]"

text \<open>
  The observations handed to \<^verbatim>\<open>self.obs_rms.update\<close>: of every column \<open>i\<close> of the batch the
  slice \<^verbatim>\<open>obs_cpu[i][:int(num_not_done[i].item())]\<close>, concatenated.  \<^verbatim>\<open>int\<close> truncates; the
  numbers are not negative.
\<close>

definition valid_obs :: "nat \<Rightarrow> pixels list list \<Rightarrow> real list list \<Rightarrow> py_error + pixels list" where
  "valid_obs B obs_cpu d =
     (let n = num_not_done d in
      if B = 0 \<or> length n < B then Inl IndexError
      else Inr (fold (\<lambda>i valid. valid @ take (nat \<lfloor>n ! i\<rfloor>) (column i obs_cpu)) [1..<B]
                  (take (nat \<lfloor>n ! 0\<rfloor>) (column 0 obs_cpu))))"

text \<open>
  \<^verbatim>\<open>forward\<close>: the observation has the dimensions [T, B, frames, pixels], of which the last
  frame is used.  It returns the target features, the predicted features and T, and
  updates the observation statistics when \<^verbatim>\<open>done\<close> is given.  Arrays are lists of rows of
  one length; a batch without timesteps has no rows to take B from, and B is 0 there.
\<close>

definition forward :: "rnd_ops \<Rightarrow> rnd \<Rightarrow> pixels list list list \<Rightarrow> real list list option
    \<Rightarrow> py_error + rnd \<times> real list list list \<times> real list list list \<times> nat" where
  "forward ops s obs done =
     (if list_ex (list_ex (\<lambda>frames. frames = [])) obs then Inl IndexError
      else
        let obs1 = map (map last) obs;
            T = fst (shape obs1);
            B = snd (shape obs1);
            norm_obs = map (map (normalize_obs (obs_rms s))) obs1;
            phi = map (map (net_target ops (target_model s))) norm_obs;
            predicted_phi = map (map (net_forward ops (forward_model s))) norm_obs
        in case done of
             None \<Rightarrow> Inr (s, phi, predicted_phi, T)
           | Some d \<Rightarrow>
               (case valid_obs B obs1 d of
                  Inl err \<Rightarrow> Inl err
                | Inr valid \<Rightarrow>
                    Inr (s\<lparr>obs_rms := update_obs_rms ops (obs_rms s) valid\<rparr>,
                         phi, predicted_phi, T)))"

subsection \<open>\<^verbatim>\<open>compute_bonus\<close> and \<^verbatim>\<open>compute_loss\<close>\<close>

text \<open>
  \<^verbatim>\<open>nn.functional.mse_loss(predicted_phi, phi, reduction='none').sum(-1) / feature_size\<close>:
  for every timestep the sum of the squared differences of the features, divided by
  \<^verbatim>\<open>feature_size\<close>.  The model covers feature vectors of one length: where the lengths
  differ, and torch broadcasts or raises, it gives \<^verbatim>\<open>RuntimeError\<close>.
\<close>

definition squared_error :: "real list \<Rightarrow> real list \<Rightarrow> real" where
  "squared_error p q = sum_list (map (\<lambda>(x, y). (x - y) ^ 2) (zip p q))"

definition mse_rewards :: "nat \<Rightarrow> real list list list \<Rightarrow> real list list list
    \<Rightarrow> py_error + real list list" where
  "mse_rewards fs predicted_phi phi =
     (if \<not> list_all2 (list_all2 (\<lambda>p q. length p = length q)) predicted_phi phi
      then Inl RuntimeError
      else Inr (map (\<lambda>(ps, qs). map (\<lambda>(p, q). squared_error p q / real fs) (zip ps qs))
                  (zip predicted_phi phi)))"

text \<open>
  \<^verbatim>\<open>[self.rew_rff.update(rewards_cpu[i], not_done=not_done[i]) for i in range(T)]\<close>, with the
  filter threaded through the calls.
\<close>

fun filter_rewards :: "rnd_ops \<Rightarrow> reward_forward_filter \<Rightarrow> real list list \<Rightarrow> real list list \<Rightarrow> nat list
    \<Rightarrow> reward_forward_filter \<times> real list list" where
  "filter_rewards ops rff rewards not_done [] = (rff, [])"
| "filter_rewards ops rff rewards not_done (i # rest) =
     (case update_rew_rff ops rff (rewards ! i) (not_done ! i) of
        (rff1, x) \<Rightarrow>
          (case filter_rewards ops rff1 rewards not_done rest of
             (rff2, xs) \<Rightarrow> (rff2, x # xs)))"

text \<open>\<^verbatim>\<open>np.mean\<close>, \<^verbatim>\<open>np.var\<close> and \<^verbatim>\<open>np.sum\<close> over all entries of an array.\<close>

definition np_mean :: "real list list \<Rightarrow> real" where
  "np_mean a = sum_list (concat a) / real (length (concat a))"

definition np_var :: "real list list \<Rightarrow> real" where
  "np_var a = sum_list (map (\<lambda>x. (x - np_mean a) ^ 2) (concat a)) / real (length (concat a))"

definition np_sum :: "real list list \<Rightarrow> real" where
  "np_sum a = sum_list (concat a)"

text \<open>The product of two arrays of one shape, entry by entry.\<close>

definition mul_arrays :: "real list list \<Rightarrow> real list list \<Rightarrow> real list list" where
  "mul_arrays a b = map (\<lambda>(xs, ys). map (\<lambda>(x, y). x * y) (zip xs ys)) (zip a b)"

text \<open>
  \<^verbatim>\<open>compute_bonus\<close>.  The loop over \<^verbatim>\<open>range(T)\<close> raises when \<^verbatim>\<open>done\<close> has fewer than T
  rows; \<^verbatim>\<open>rewards *= not_done\<close> is modelled for a mask of the shape of the rewards, and
  gives \<^verbatim>\<open>RuntimeError\<close> on any other shape.  The division by the square root of the
  variance is the division of the real numbers: the model says nothing faithful about a
  variance that is not positive, where torch gives an infinity or not-a-number.
\<close>

definition compute_bonus :: "rnd_ops \<Rightarrow> rnd \<Rightarrow> pixels list list list \<Rightarrow> real list list
    \<Rightarrow> py_error + rnd \<times> real list list" where
  "compute_bonus ops s next_observation done =
     (case forward ops s next_observation (Some done) of
        Inl err \<Rightarrow> Inl err
      | Inr (s1, phi, predicted_phi, T) \<Rightarrow>
          (case mse_rewards (feature_size s1) predicted_phi phi of
             Inl err \<Rightarrow> Inl err
           | Inr rewards \<Rightarrow>
               (let not_done = map (map (\<lambda>x. \<bar>x - 1\<bar>)) done
                in if length not_done < T then Inl IndexError
                   else
                     (case filter_rewards ops (rew_rff s1) rewards not_done [0..<T] of
                        (rff, total_rew_per_env) \<Rightarrow>
                          (let rms = update_rew_rms_from_moments ops (rew_rms s1)
                                       (np_mean total_rew_per_env) (np_var total_rew_per_env)
                                       (np_sum not_done);
                               rew_var = rms_var rms;
                               normalized = map (map (\<lambda>r. r / sqrt rew_var)) rewards
                           in if shape not_done \<noteq> shape rewards then Inl RuntimeError
                              else Inr (s1\<lparr>rew_rff := rff, rew_rms := rms\<rparr>,
                                        map (map (\<lambda>r. prediction_beta s1 * r))
                                          (mul_arrays normalized not_done)))))))"

text \<open>
  \<^verbatim>\<open>compute_loss\<close>: \<open>rand\<close> is the array drawn by \<^verbatim>\<open>torch.rand(forward_loss.shape)\<close>, of the
  shape of the loss; \<^verbatim>\<open>valid\<close> is modelled for that shape, any other gives
  \<^verbatim>\<open>RuntimeError\<close>.  When the mask keeps no entry torch returns not-a-number, on which the
  model's quotient says nothing faithful.
\<close>

definition compute_loss :: "rnd_ops \<Rightarrow> rnd \<Rightarrow> pixels list list list \<Rightarrow> real list list \<Rightarrow> real list list
    \<Rightarrow> py_error + rnd \<times> real" where
  "compute_loss ops s next_observations valid rand =
     (case forward ops s next_observations None of
        Inl err \<Rightarrow> Inl err
      | Inr (s1, phi, predicted_phi, T) \<Rightarrow>
          (case mse_rewards (feature_size s1) predicted_phi phi of
             Inl err \<Rightarrow> Inl err
           | Inr forward_loss \<Rightarrow>
               (let drop_mask = map (map (\<lambda>x. 1 - (if x > drop_probability s1 then 1 else 0))) rand
                in if shape valid \<noteq> shape forward_loss then Inl RuntimeError
                   else
                     (let net_mask = mul_arrays drop_mask valid
                      in Inr (s1, np_sum (mul_arrays forward_loss net_mask) / np_sum net_mask)))))"

subsection \<open>Vocabulary for the properties of the module\<close>

text \<open>
  The observations of column \<open>b\<close> at the timesteps that are not done, and the number of
  these timesteps.
\<close>

definition not_done_obs :: "nat \<Rightarrow> pixels list list \<Rightarrow> real list list \<Rightarrow> pixels list" where
  "not_done_obs b obs_cpu d =
     map fst (filter (\<lambda>(x, dn). dn = 0) (zip (column b obs_cpu) (column b d)))"

definition count_not_done :: "nat \<Rightarrow> real list list \<Rightarrow> nat" where
  "count_not_done b d = length (filter (\<lambda>dn. dn = 0) (column b d))"

text \<open>An array of the dimensions [T, B] whose entries are the flags 0 and 1.\<close>

definition flags :: "nat \<Rightarrow> nat \<Rightarrow> real list list \<Rightarrow> bool" where
  "flags T B d = (has_shape T B d \<and> list_all (list_all (\<lambda>x. x = 0 \<or> x = 1)) d)"

text \<open>
  The features of the two networks on a normalized observation, and the observation of
  the timestep (t, b) normalized with the statistics of the module.
\<close>

definition predictor_features :: "rnd_ops \<Rightarrow> rnd \<Rightarrow> pixels \<Rightarrow> real list" where
  "predictor_features ops s x = net_forward ops (forward_model s) x"

definition target_features :: "rnd_ops \<Rightarrow> rnd \<Rightarrow> pixels \<Rightarrow> real list" where
  "target_features ops s x = net_target ops (target_model s) x"

definition norm_obs_at :: "rnd \<Rightarrow> pixels list list list \<Rightarrow> nat \<Rightarrow> nat \<Rightarrow> pixels" where
  "norm_obs_at s obs t b = normalize_obs (obs_rms s) (last (obs ! t ! b))"



text \<open>A sequence of calls of the three methods, each on the module the last one left.\<close>

datatype rnd_call =
  Forward "pixels list list list" "real list list option"
  | ComputeBonus "pixels list list list" "real list list"
  | ComputeLoss "pixels list list list" "real list list" "real list list"

fun calls :: "rnd_ops \<Rightarrow> rnd \<Rightarrow> rnd_call list \<Rightarrow> py_error + rnd" where
  "calls ops s [] = Inr s"
| "calls ops s (Forward obs done # rest) =
     (case forward ops s obs done of Inl err \<Rightarrow> Inl err | Inr r \<Rightarrow> calls ops (fst r) rest)"
| "calls ops s (ComputeBonus obs done # rest) =
     (case compute_bonus ops s obs done of Inl err \<Rightarrow> Inl err | Inr r \<Rightarrow> calls ops (fst r) rest)"
| "calls ops s (ComputeLoss obs valid rand # rest) =
     (case compute_loss ops s obs valid rand of Inl err \<Rightarrow> Inl err | Inr r \<Rightarrow> calls ops (fst r) rest)"

text \<open>
  Stand-ins for the networks and the statistics, to run the module on small inputs: the
  target network gives 512 features that are the first pixel scaled by its first
  parameter, the predictor 512 features that are the first pixel plus its first
  parameter; the observation statistics remember the first and count the observations
  they are given; the reward statistics take the batch moments.
\<close>

definition toy_ops :: rnd_ops where
  "toy_ops =
     \<lparr>net_target = (\<lambda>ps x. replicate 512 (param_data (ps ! 0) ! 0 * x ! 0)),
      net_forward = (\<lambda>ps x. replicate 512 (param_data (ps ! 0) ! 0 + x ! 0)),
      update_obs_rms = (\<lambda>rms valid.
         case valid of [] \<Rightarrow> rms
         | x # _ \<Rightarrow> rms\<lparr>rms_mean := x, rms_count := rms_count rms + real (length valid)\<rparr>),
      update_rew_rms_from_moments = (\<lambda>rms m v n. rms\<lparr>rms_mean := m, rms_var := v + 4,
                                                      rms_count := rms_count rms + n\<rparr>),
      update_rew_rff = (\<lambda>rff r nd. (rff\<lparr>rewems := Some r\<rparr>, r))\<rparr>"

definition toy_rnd :: rnd where
  "toy_rnd =
     rnd_init None 2 1 (99 / 100) \<lparr>rms_mean = [0], rms_var = [1], rms_count = 0\<rparr>
       \<lparr>rms_mean = 0, rms_var = 1, rms_count = 0\<rparr>
       [\<lparr>param_data = [1], requires_grad = True\<rparr>]
       [\<lparr>param_data = [3], requires_grad = True\<rparr>]"

text \<open>
  A batch of two timesteps in one environment whose second timestep is done, the module
  after \<^verbatim>\<open>compute_bonus\<close> on it, and a batch whose first timestep is the one that is done.
\<close>

definition toy_batch :: "pixels list list list" where
  "toy_batch = [[[[0]]], [[[100]]]]"

definition toy_done :: "real list list" where
  "toy_done = [[0], [1]]"

definition toy_trained :: rnd where
  "toy_trained = fst (projr (compute_bonus toy_ops toy_rnd toy_batch toy_done))"



section \<open>Properties of the five-room game\<close>

lemma length_art: "length MAZES_ART = 19"
  by (simp add: MAZES_ART_def)

lemma length_row: "r < 19 \<Longrightarrow> length (MAZES_ART ! r) = 19"
proof -
  have "list_all (\<lambda>row. length row = 19) MAZES_ART"
    by (simp add: MAZES_ART_def)
  then show "r < 19 \<Longrightarrow> length (MAZES_ART ! r) = 19"
    by (simp add: list_all_length length_art)
qed

lemma board_at_render:
  "board_at (render g) (r, c) =
     (if 0 \<le> r \<and> r < 19 \<and> 0 \<le> c \<and> c < 19 then
        Some (if position (sprite_P g) = (r, c) then CHR ''P''
              else if position (sprite_b g) = (r, c) then CHR ''b''
              else if position (sprite_e g) = (r, c) then CHR ''e''
              else backdrop MAZES_ART ! nat r ! nat c)
      else None)"
  by (auto simp: board_at_def render_def length_art length_row)

lemma move_impassable [simp]: "impassable (fst (move w bd v)) = impassable w"
  by (simp add: move_def Let_def split: option.splits)

lemma move_last_position [simp]: "last_position (fst (move w bd v)) = last_position w"
  by (simp add: move_def Let_def split: option.splits)

lemma move_last_action [simp]: "last_action (fst (move w bd v)) = last_action w"
  by (simp add: move_def Let_def split: option.splits)

lemma move_position:
  "position (fst (move w bd v)) =
     (if blocked_at bd (impassable w) (shift (position w) v) then position w
      else shift (position w) v)"
  by (simp add: move_def Let_def blocked_at_def shift_def split: option.splits)

lemma move_result:
  "(snd (move w bd v) \<noteq> None) = blocked_at bd (impassable w) (shift (position w) v)"
  by (simp add: move_def Let_def blocked_at_def shift_def split: option.splits)

lemma PlayerSprite_update_fields:
  "last_position (fst (PlayerSprite_update a bd P0)) = Some (position P0)"
  "last_action (fst (PlayerSprite_update a bd P0)) = a"
  "impassable (fst (PlayerSprite_update a bd P0)) = impassable P0"
  "snd (PlayerSprite_update a bd P0) = (a = Some 5)"
  by (simp_all add: PlayerSprite_update_def Let_def north_def south_def west_def east_def stay_def)

lemma PlayerSprite_update_position:
  "position (fst (PlayerSprite_update a bd P0)) =
     (if a \<in> {Some 0, Some 1, Some 2, Some 3}
         \<and> \<not> blocked_at bd (impassable P0) (shift (position P0) (motion (the a)))
      then shift (position P0) (motion (the a)) else position P0)"
  by (simp add: PlayerSprite_update_def Let_def north_def south_def west_def east_def stay_def
      move_position motion_def shift_def)

lemma MoveableObject_update_Inr:
  "last_position P0 = Some lp \<Longrightarrow>
   \<exists>m' P'. MoveableObject_update bd P0 m = Inr (m', P') \<and> impassable m' = impassable m
     \<and> impassable P' = impassable P0 \<and> last_position P' = last_position P0
     \<and> last_action P' = last_action P0"
  by (cases lp) (simp add: MoveableObject_update_def Let_def north_def south_def west_def east_def stay_def
      case_prod_beta)

lemma MoveableObject_update_object:
  assumes "last_position P0 = Some lp" and "MoveableObject_update bd P0 m = Inr (m', P')"
  shows "position m' =
     (case last_action P0 of
        None \<Rightarrow> position m
      | Some d \<Rightarrow>
          if d \<in> {0, 1, 2, 3} \<and> lp = behind (position m) (motion d)
             \<and> \<not> exit_push (position m) d
             \<and> \<not> blocked_at bd (impassable m) (shift (position m) (motion d))
          then shift (position m) (motion d) else position m)"
proof (cases "last_action P0")
  case None
  with assms show ?thesis
    by (cases lp) (simp add: MoveableObject_update_def Let_def)
next
  case (Some d)
  consider "d = 0" | "d = 1" | "d = 2" | "d = 3" | "d \<notin> {0, 1, 2, 3}" by auto
  then show ?thesis
  proof cases
    case 1
    with assms Some show ?thesis
      by (cases lp; cases "position m")
        (auto simp add: MoveableObject_update_def Let_def north_def move_position move_result
          case_prod_beta motion_def behind_def exit_push_def shift_def split: if_splits)
  next
    case 2
    with assms Some show ?thesis
      by (cases lp; cases "position m")
        (auto simp add: MoveableObject_update_def Let_def south_def stay_def move_position move_result
          case_prod_beta motion_def behind_def exit_push_def shift_def split: if_splits)
  next
    case 3
    with assms Some show ?thesis
      by (cases lp; cases "position m")
        (auto simp add: MoveableObject_update_def Let_def west_def stay_def move_position move_result
          case_prod_beta motion_def behind_def exit_push_def shift_def split: if_splits)
  next
    case 4
    with assms Some show ?thesis
      by (cases lp; cases "position m")
        (auto simp add: MoveableObject_update_def Let_def east_def stay_def move_position move_result
          case_prod_beta motion_def behind_def exit_push_def shift_def split: if_splits)
  next
    case 5
    with assms Some show ?thesis
      by (cases lp) (auto simp add: MoveableObject_update_def Let_def split: if_splits)
  qed
qed

lemma move_result_None:
  "(snd (move w bd v) = None) = (\<not> blocked_at bd (impassable w) (shift (position w) v))"
  using move_result [of w bd v] by auto

lemma move_result_Some:
  "snd (move w bd v) = Some y \<Longrightarrow> blocked_at bd (impassable w) (shift (position w) v)"
  using move_result [of w bd v] by auto

lemma MoveableObject_update_player:
  assumes "last_position P0 = Some lp" and "MoveableObject_update bd P0 m = Inr (m', P')"
  shows "position P' =
     (case last_action P0 of
        None \<Rightarrow> position P0
      | Some d \<Rightarrow>
          if d \<in> {0, 1, 2, 3} \<and> lp = behind (position m) (motion d)
             \<and> (exit_push (position m) d
                \<or> blocked_at bd (impassable m) (shift (position m) (motion d)))
          then position (fst (move P0 bd (opposite (motion d)))) else position P0)"
proof (cases "last_action P0")
  case None
  with assms show ?thesis
    by (cases lp) (auto simp add: MoveableObject_update_def Let_def)
next
  case (Some d)
  consider "d = 0" | "d = 1" | "d = 2" | "d = 3" | "d \<notin> {0, 1, 2, 3}" by auto
  then show ?thesis
  proof cases
    case 1
    with assms Some show ?thesis
      by (cases lp; cases "position m")
        (auto simp add: MoveableObject_update_def Let_def north_def south_def move_result move_result_None
          case_prod_beta motion_def behind_def exit_push_def shift_def opposite_def split: if_splits dest: move_result_Some)
  next
    case 2
    with assms Some show ?thesis
      by (cases lp; cases "position m")
        (auto simp add: MoveableObject_update_def Let_def south_def north_def stay_def move_result move_result_None
          case_prod_beta motion_def behind_def exit_push_def shift_def opposite_def split: if_splits dest: move_result_Some)
  next
    case 3
    with assms Some show ?thesis
      by (cases lp; cases "position m")
        (auto simp add: MoveableObject_update_def Let_def west_def east_def stay_def move_result move_result_None
          case_prod_beta motion_def behind_def exit_push_def shift_def opposite_def split: if_splits dest: move_result_Some)
  next
    case 4
    with assms Some show ?thesis
      by (cases lp; cases "position m")
        (auto simp add: MoveableObject_update_def Let_def east_def west_def stay_def move_result move_result_None
          case_prod_beta motion_def behind_def exit_push_def shift_def opposite_def split: if_splits dest: move_result_Some)
  next
    case 5
    with assms Some show ?thesis
      by (cases lp) (auto simp add: MoveableObject_update_def Let_def split: if_splits)
  qed
qed

lemma play_Inr:
  "\<not> game_over g \<Longrightarrow>
   \<exists>e1 P2. MoveableObject_update (render g) (fst (PlayerSprite_update a (render g) (sprite_P g)))
               (sprite_e g) = Inr (e1, P2)
     \<and> play g a k = Inr (g\<lparr>sprite_P := P2, sprite_e := e1,
                      sprite_b := WhiteNoiseObject_update k (sprite_b g),
                      game_over := (a = Some 5), frame := frame g + 1\<rparr>)"
proof -
  assume ng: "\<not> game_over g"
  obtain e1 P2 where u: "MoveableObject_update (render g)
      (fst (PlayerSprite_update a (render g) (sprite_P g))) (sprite_e g) = Inr (e1, P2)"
    using MoveableObject_update_Inr [OF PlayerSprite_update_fields(1)] by blast
  then show ?thesis
    using ng by (simp add: play_def Let_def case_prod_beta PlayerSprite_update_fields)
qed

lemma upper_room_closed:
  "list_all (\<lambda>m. list_all (\<lambda>d. exit_push m d
        \<or> backdrop MAZES_ART ! nat (fst (shift m (motion d))) ! nat (snd (shift m (motion d))) = CHR ''#''
        \<or> shift m (motion d) \<in> set upper_room) [0, 1, 2, 3]) upper_room"
  by code_simp

lemma upper_room_grid:
  "list_all (\<lambda>m. 1 \<le> fst m \<and> fst m \<le> 4 \<and> 2 \<le> snd m \<and> snd m \<le> 16) upper_room"
  by code_simp

lemma make_game_eq:
  "make_game = \<lparr>sprite_P = \<lparr>position = (9, 9), impassable = ''#'',
                   last_position = None, last_action = None\<rparr>,
      sprite_e = \<lparr>position = (3, 9), impassable = ''#b''\<rparr>,
      sprite_b = \<lparr>position = (16, 4), impassable = ''Pe#'', empty_coords = ROOMS_4\<rparr>,
      game_over = False,
      frame = -1\<rparr>"
  unfolding make_game_def by code_simp

lemma start_in_upper_room: "(3, 9) \<in> set upper_room"
  by code_simp

lemma nth_ROOMS_4: "k < length ROOMS_4 \<Longrightarrow> ROOMS_4 ! k \<in> set ROOMS_4"
  by simp

lemma push_target_in_upper_room:
  assumes m: "position (sprite_e g) \<in> set upper_room"
    and d: "d \<in> {0, 1, 2, 3}"
    and nexit: "\<not> exit_push (position (sprite_e g)) d"
    and P: "position (sprite_P g) = behind (position (sprite_e g)) (motion d)"
    and free: "\<not> blocked_at (render g) ''#b'' (shift (position (sprite_e g)) (motion d))"
  shows "shift (position (sprite_e g)) (motion d) \<in> set upper_room"
proof -
  obtain r c where rc: "position (sprite_e g) = (r, c)" by (cases "position (sprite_e g)")
  let ?t = "shift (r, c) (motion d)"
  from m rc upper_room_grid have grid: "1 \<le> r \<and> r \<le> 4 \<and> 2 \<le> c \<and> c \<le> 16"
    by (auto simp: list_all_iff)
  have "\<forall>m\<in>set upper_room. \<forall>d\<in>set [0, 1, 2, 3]. exit_push m d
        \<or> backdrop MAZES_ART ! nat (fst (shift m (motion d))) ! nat (snd (shift m (motion d))) = CHR ''#''
        \<or> shift m (motion d) \<in> set upper_room"
    using upper_room_closed by (simp only: list_all_iff)
  moreover have "d \<in> set [0, 1, 2, 3]" using d by simp
  ultimately
  have alt: "backdrop MAZES_ART ! nat (fst ?t) ! nat (snd ?t) = CHR ''#'' \<or> ?t \<in> set upper_room"
    using m rc nexit by (auto dest!: bspec)
  have tgrid: "0 \<le> fst ?t \<and> fst ?t < 19 \<and> 0 \<le> snd ?t \<and> snd ?t < 19"
    using grid d by (auto simp: shift_def motion_def)
  have nP: "position (sprite_P g) \<noteq> ?t" and ne: "position (sprite_e g) \<noteq> ?t"
    using P rc d by (auto simp: shift_def motion_def behind_def)
  show ?thesis
  proof (rule ccontr)
    assume "\<not> ?thesis"
    with alt rc have wall: "backdrop MAZES_ART ! nat (fst ?t) ! nat (snd ?t) = CHR ''#''" by simp
    have "board_at (render g) ?t = Some CHR ''b'' \<or> board_at (render g) ?t = Some CHR ''#''"
      using board_at_render [of g "fst ?t" "snd ?t"] tgrid nP ne wall by auto
    then have "blocked_at (render g) ''#b'' ?t"
      by (auto simp: blocked_at_def)
    with free rc show False by simp
  qed
qed

lemma play_preserves:
  assumes pre: "impassable (sprite_P g) = ''#''" "impassable (sprite_e g) = ''#b''"
      "empty_coords (sprite_b g) = ROOMS_4" "position (sprite_e g) \<in> set upper_room"
    and k: "k < length ROOMS_4" and step: "play g a k = Inr g'"
  shows "game_inv g'"
proof -
  from step have ng: "\<not> game_over g" by (auto simp: play_def)
  let ?P1 = "fst (PlayerSprite_update a (render g) (sprite_P g))"
  from play_Inr [OF ng, of a k] step obtain e1 P2 where
    u: "MoveableObject_update (render g) ?P1 (sprite_e g) = Inr (e1, P2)"
    and g': "g' = g\<lparr>sprite_P := P2, sprite_e := e1,
                      sprite_b := WhiteNoiseObject_update k (sprite_b g),
                      game_over := (a = Some 5), frame := frame g + 1\<rparr>"
    by auto
  have lp: "last_position ?P1 = Some (position (sprite_P g))"
    by (rule PlayerSprite_update_fields)
  from MoveableObject_update_Inr [OF lp, of "render g" "sprite_e g"] u
  have imp: "impassable e1 = impassable (sprite_e g)" "impassable P2 = impassable ?P1"
    by auto
  have e1: "position e1 \<in> set upper_room"
  proof (cases "position e1 = position (sprite_e g)")
    case True
    with pre show ?thesis by simp
  next
    case False
    from MoveableObject_update_object [OF lp u] False
    obtain d where d: "a = Some d" "d \<in> {0, 1, 2, 3}"
      "position (sprite_P g) = behind (position (sprite_e g)) (motion d)"
      "\<not> exit_push (position (sprite_e g)) d"
      "\<not> blocked_at (render g) (impassable (sprite_e g)) (shift (position (sprite_e g)) (motion d))"
      "position e1 = shift (position (sprite_e g)) (motion d)"
      by (auto simp: PlayerSprite_update_fields split: option.splits if_splits)
    with pre push_target_in_upper_room [of g d] show ?thesis by simp
  qed
  show ?thesis
    using pre k e1 imp
    by (simp add: game_inv_def g' PlayerSprite_update_fields WhiteNoiseObject_update_def
        teleport_def)
qed

lemma reachable_inv: "reachable g \<Longrightarrow> game_inv g"
proof (induction rule: reachable.induct)
  case (start k g)
  have "game_inv g"
  proof (rule play_preserves [of make_game k None g])
    show "play make_game None k = Inr g" using start by (simp add: its_showtime_def)
  qed (use start in \<open>simp_all add: make_game_eq start_in_upper_room\<close>)
  then show ?case .
next
  case (iter g k a g')
  from iter.IH have pre: "impassable (sprite_P g) = ''#''" "impassable (sprite_e g) = ''#b''"
      "empty_coords (sprite_b g) = ROOMS_4" "position (sprite_e g) \<in> set upper_room"
    by (simp_all add: game_inv_def)
  from pre iter.hyps(2,3) show ?case by (rule play_preserves)
qed

lemma obstructed_blocked_at:
  "obstructed g d = blocked_at (render g) (impassable (sprite_e g)) (shift (position (sprite_e g)) (motion d))"
  by (simp add: obstructed_def blocked_at_def)

lemma render_shows_sprites:
  "\<not> blocked_at (render g) ''#'' (position (sprite_P g))"
  "\<not> blocked_at (render g) ''#'' (position (sprite_e g))"
  using board_at_render [of g "fst (position (sprite_P g))" "snd (position (sprite_P g))"]
    board_at_render [of g "fst (position (sprite_e g))" "snd (position (sprite_e g))"]
  by (auto simp: blocked_at_def split: option.splits if_splits)

lemma shift_behind [simp]: "shift (behind m v) v = m" "shift m (opposite v) = behind m v"
  by (simp_all add: shift_def behind_def opposite_def)

lemma shift_motion_neq:
  "d \<in> {0, 1, 2, 3} \<Longrightarrow> shift m (motion d) \<noteq> m"
  "d \<in> {0, 1, 2, 3} \<Longrightarrow> d' \<in> {0, 1, 2, 3} \<Longrightarrow> d \<noteq> d' \<Longrightarrow> shift m (motion d) \<noteq> shift m (motion d')"
  by (cases m; auto simp: shift_def motion_def)+

lemma play_push:
  assumes impP: "impassable (sprite_P g) = ''#''" and ng: "\<not> game_over g"
  shows "\<exists>g'. play g a k = Inr g'
     \<and> last_position (sprite_P g') = Some (position (sprite_P g))
     \<and> last_action (sprite_P g') = a
     \<and> position (sprite_e g') =
         (case a of None \<Rightarrow> position (sprite_e g)
          | Some d \<Rightarrow> if d \<in> {0, 1, 2, 3} \<and> pushed g a d
                \<and> \<not> exit_push (position (sprite_e g)) d \<and> \<not> obstructed g d
              then shift (position (sprite_e g)) (motion d) else position (sprite_e g))
     \<and> (\<forall>d\<in>{0, 1, 2, 3}. pushed g a d \<longrightarrow> position (sprite_P g') =
           (if exit_push (position (sprite_e g)) d \<or> obstructed g d
            then position (sprite_P g) else position (sprite_e g)))"
proof -
  let ?bd = "render g"
  let ?P1 = "fst (PlayerSprite_update a ?bd (sprite_P g))"
  let ?m = "position (sprite_e g)"
  let ?p = "position (sprite_P g)"
  from play_Inr [OF ng, of a k] obtain e1 P2 where
    u: "MoveableObject_update ?bd ?P1 (sprite_e g) = Inr (e1, P2)"
    and g': "play g a k = Inr (g\<lparr>sprite_P := P2, sprite_e := e1,
                      sprite_b := WhiteNoiseObject_update k (sprite_b g),
                      game_over := (a = Some 5), frame := frame g + 1\<rparr>)"
    by auto
  have lp: "last_position ?P1 = Some ?p" and la: "last_action ?P1 = a"
    and imp1: "impassable ?P1 = ''#''"
    by (simp_all add: PlayerSprite_update_fields impP)
  from MoveableObject_update_Inr [OF lp, of ?bd "sprite_e g"] u
  have keep: "last_position P2 = Some ?p" "last_action P2 = a"
    by (auto simp: lp la)
  have obj: "position e1 =
         (case a of None \<Rightarrow> ?m
          | Some d \<Rightarrow> if d \<in> {0, 1, 2, 3} \<and> pushed g a d
                \<and> \<not> exit_push ?m d \<and> \<not> obstructed g d
              then shift ?m (motion d) else ?m)"
    using MoveableObject_update_object [OF lp u]
    by (simp add: la pushed_def obstructed_blocked_at split: option.splits)
  have ply: "position P2 = (if exit_push ?m d \<or> obstructed g d then ?p else ?m)"
    if d: "d \<in> {0, 1, 2, 3}" and pu: "pushed g a d" for d
  proof -
    from pu have a: "a = Some d" and p: "?p = behind ?m (motion d)"
      by (simp_all add: pushed_def)
    have P1: "position ?P1 = ?m"
      using d render_shows_sprites(2) [of g]
      by (simp add: PlayerSprite_update_position a impP p)
    have bk: "position (fst (move ?P1 ?bd (opposite (motion d)))) = ?p"
      using render_shows_sprites(1) [of g]
      by (simp add: move_position imp1 P1) (simp add: p)
    have "position P2 =
        (if exit_push ?m d \<or> blocked_at ?bd (impassable (sprite_e g)) (shift ?m (motion d))
         then position (fst (move ?P1 ?bd (opposite (motion d)))) else position ?P1)"
      using MoveableObject_update_player [OF lp u] d p
      by (simp add: PlayerSprite_update_fields a)
    then show ?thesis
      by (simp only: bk P1 obstructed_blocked_at)
  qed
  show ?thesis
    using g' keep obj ply by simp
qed


lemma plays_at_the_door:
  "plays make_game [(None, 0), (Some 0, 0), (Some 0, 0), (Some 0, 0), (Some 0, 0), (Some 0, 0)]
     = Inr at_the_door"
  by (simp add: make_game_eq play_def PlayerSprite_update_def MoveableObject_update_def
      north_def move_def board_at_render backdrop_def MAZES_ART_def WhiteNoiseObject_update_def
      teleport_def ROOMS_4_def at_the_door_def Let_def)

lemma reachable_plays_from:
  "reachable g \<Longrightarrow> list_all (\<lambda>(a, k). k < length ROOMS_4) acts \<Longrightarrow> plays g acts = Inr g'
     \<Longrightarrow> reachable g'"
proof (induction acts arbitrary: g)
  case Nil
  then show ?case by simp
next
  case (Cons x acts)
  obtain a k where x: "x = (a, k)" by (cases x)
  with Cons.prems obtain g1 where g1: "play g a k = Inr g1" "plays g1 acts = Inr g'"
    by (auto split: sum.splits)
  with Cons.prems x have "reachable g1" by (auto intro: reachable.iter)
  with Cons.IH g1 Cons.prems show ?case by simp
qed

lemma reachable_plays:
  assumes "k < length ROOMS_4" "list_all (\<lambda>(a, k). k < length ROOMS_4) acts"
    "plays make_game ((None, k) # acts) = Inr g"
  shows "reachable g"
proof -
  from assms(3) obtain g0 where g0: "play make_game None k = Inr g0" "plays g0 acts = Inr g"
    by (auto split: sum.splits)
  with assms(1) have "reachable g0" by (auto intro: reachable.start simp: its_showtime_def)
  with g0 assms(2) show ?thesis by (rule_tac reachable_plays_from)
qed

lemma reachable_at_the_door: "reachable at_the_door"
  by (rule reachable_plays [OF _ _ plays_at_the_door]) (simp_all add: ROOMS_4_def)

text \<open>
  Claim C8.  At every update the white-noise sprite teleports to the coordinate of
  \<^verbatim>\<open>ROOMS[4]\<close> that the random draw \<open>k\<close> selects, so in every game of an episode (after show
  time and after every iteration) its position is a member of \<^verbatim>\<open>ROOMS[4]\<close>.  The draw is an
  input of the model: which index is drawn, and how likely, is numpy's.
\<close>

theorem white_noise_in_room_4:
  assumes "reachable g"
  shows "position (sprite_b g) \<in> set ROOMS_4
     \<and> (k < length ROOMS_4 \<and> \<not> game_over g \<longrightarrow>
          (\<exists>g'. play g a k = Inr g' \<and> position (sprite_b g') = ROOMS_4 ! k
             \<and> position (sprite_b g') \<in> set ROOMS_4))"
proof -
  from reachable_inv [OF assms] have inv: "empty_coords (sprite_b g) = ROOMS_4"
    "position (sprite_b g) \<in> set ROOMS_4"
    by (simp_all add: game_inv_def)
  have "\<exists>g'. play g a k = Inr g' \<and> position (sprite_b g') = ROOMS_4 ! k
             \<and> position (sprite_b g') \<in> set ROOMS_4"
    if "k < length ROOMS_4" "\<not> game_over g"
  proof -
    from play_Inr [OF that(2), of a k] obtain g' where
      "play g a k = Inr g'" "sprite_b g' = WhiteNoiseObject_update k (sprite_b g)"
      by auto
    with inv that(1) show ?thesis
      by (simp add: WhiteNoiseObject_update_def teleport_def)
  qed
  with inv show ?thesis by blast
qed

theorem white_noise_in_room_4_witness:
  "reachable at_the_door \<and> (7::nat) < length ROOMS_4 \<and> \<not> game_over at_the_door
   \<and> position (sprite_b at_the_door) = (14, 6)
   \<and> (\<exists>g'. play at_the_door (Some 2) 7 = Inr g' \<and> position (sprite_b g') = (15, 8))"
proof -
  have k: "(7::nat) < length ROOMS_4" and ng: "\<not> game_over at_the_door"
    by (simp_all add: ROOMS_4_def at_the_door_def)
  have "ROOMS_4 ! 7 = (15, 8)" by (simp add: ROOMS_4_def)
  with white_noise_in_room_4 [OF reachable_at_the_door, of 7 "Some 2"] k ng
  show ?thesis by (auto simp: reachable_at_the_door) (simp add: at_the_door_def)
qed

text \<open>
  Claim C3.  One iteration of the game with action \<open>a\<close>.  The object ends one cell further in
  direction \<open>d\<close> exactly when the player pushed it that way (it stood behind the object and
  its action was \<open>d\<close>), the push is not one of the three exit pushes, and the destination is
  not obstructed; otherwise the object stays.  When a push is obstructed or is an exit
  push ((3, 9) downwards, (4, 8) rightwards, (4, 10) leftwards), the object stays and the
  player is back on the cell it came from.  Hence in every game of an episode the object
  is on the floor of the top room, never on the doorway cell (4, 9).
\<close>

theorem moveable_object_push:
  assumes "impassable (sprite_P g) = ''#''" and "\<not> game_over g"
  shows "\<exists>g'. play g a k = Inr g'
     \<and> last_position (sprite_P g') = Some (position (sprite_P g))
     \<and> last_action (sprite_P g') = a
     \<and> (\<forall>d\<in>{0, 1, 2, 3}.
          (position (sprite_e g') = shift (position (sprite_e g)) (motion d))
            = (pushed g a d \<and> \<not> exit_push (position (sprite_e g)) d \<and> \<not> obstructed g d))
     \<and> (position (sprite_e g') = position (sprite_e g)
          \<or> (\<exists>d\<in>{0, 1, 2, 3}. position (sprite_e g') = shift (position (sprite_e g)) (motion d)))
     \<and> (\<forall>d\<in>{0, 1, 2, 3}. pushed g a d \<and> (obstructed g d \<or> exit_push (position (sprite_e g)) d)
          \<longrightarrow> position (sprite_e g') = position (sprite_e g)
              \<and> position (sprite_P g') = position (sprite_P g))
     \<and> (reachable g \<longrightarrow> position (sprite_e g) \<in> set upper_room
            \<and> position (sprite_e g') \<in> set upper_room)"
proof -
  let ?m = "position (sprite_e g)"
  from play_push [OF assms, of a k] obtain g' where
    g': "play g a k = Inr g'"
    and lp: "last_position (sprite_P g') = Some (position (sprite_P g))"
      "last_action (sprite_P g') = a"
    and obj: "position (sprite_e g') =
         (case a of None \<Rightarrow> ?m
          | Some d \<Rightarrow> if d \<in> {0, 1, 2, 3} \<and> pushed g a d
                \<and> \<not> exit_push ?m d \<and> \<not> obstructed g d
              then shift ?m (motion d) else ?m)"
    and ply: "\<forall>d\<in>{0, 1, 2, 3}. pushed g a d \<longrightarrow> position (sprite_P g') =
           (if exit_push ?m d \<or> obstructed g d then position (sprite_P g) else ?m)"
    by blast
  have moves: "(position (sprite_e g') = shift ?m (motion d))
            = (pushed g a d \<and> \<not> exit_push ?m d \<and> \<not> obstructed g d)"
    if d: "d \<in> {0, 1, 2, 3}" for d
  proof (cases a)
    case None
    with obj d shift_motion_neq(1) [of d ?m] show ?thesis
      by (auto simp: pushed_def)
  next
    case (Some d')
    show ?thesis
    proof (cases "d' = d")
      case True
      with Some obj d shift_motion_neq(1) [of d ?m] show ?thesis by auto
    next
      case False
      with Some obj d shift_motion_neq(1) [of d ?m] shift_motion_neq(2) [of d d' ?m]
      show ?thesis by (auto simp: pushed_def split: if_splits)
    qed
  qed
  have somewhere: "position (sprite_e g') = ?m
          \<or> (\<exists>d\<in>{0, 1, 2, 3}. position (sprite_e g') = shift ?m (motion d))"
    using obj by (cases a) (auto split: if_splits)
  have stays: "position (sprite_e g') = ?m \<and> position (sprite_P g') = position (sprite_P g)"
    if d: "d \<in> {0, 1, 2, 3}" and pu: "pushed g a d"
      and bl: "obstructed g d \<or> exit_push ?m d" for d
  proof -
    from pu have "a = Some d" by (simp add: pushed_def)
    with obj bl have "position (sprite_e g') = ?m" by auto
    moreover from ply d pu bl have "position (sprite_P g') = position (sprite_P g)" by auto
    ultimately show ?thesis ..
  qed
  have room: "position (sprite_e g) \<in> set upper_room \<and> position (sprite_e g') \<in> set upper_room"
    if r: "reachable g"
  proof -
    have "play g a 0 = Inr (g'\<lparr>sprite_b := WhiteNoiseObject_update 0 (sprite_b g)\<rparr>)"
      using play_Inr [OF assms(2), of a 0] play_Inr [OF assms(2), of a k] g'
      by auto
    moreover have "0 < length ROOMS_4" by (simp add: ROOMS_4_def)
    ultimately have "reachable (g'\<lparr>sprite_b := WhiteNoiseObject_update 0 (sprite_b g)\<rparr>)"
      using r by (rule_tac reachable.iter)
    from reachable_inv [OF this] reachable_inv [OF r] show ?thesis
      by (simp add: game_inv_def)
  qed
  from g' lp moves somewhere stays room show ?thesis by blast
qed

lemma plays_above_the_object:
  "plays at_the_door [(Some 2, 0), (Some 0, 0), (Some 0, 0), (Some 3, 0)] = Inr above_the_object"
  by (simp add: play_def PlayerSprite_update_def MoveableObject_update_def
      north_def east_def west_def move_def board_at_render backdrop_def MAZES_ART_def
      WhiteNoiseObject_update_def
      teleport_def ROOMS_4_def at_the_door_def above_the_object_def Let_def)

lemma reachable_above_the_object: "reachable above_the_object"
  by (rule reachable_plays_from [OF reachable_at_the_door _ plays_above_the_object])
    (simp add: ROOMS_4_def)

theorem moveable_object_push_witness:
  "impassable (sprite_P at_the_door) = ''#'' \<and> \<not> game_over at_the_door
   \<and> reachable at_the_door \<and> pushed at_the_door (Some 0) 0
   \<and> (\<exists>g'. play at_the_door (Some 0) 0 = Inr g' \<and> position (sprite_e at_the_door) = (3, 9)
         \<and> position (sprite_e g') = (2, 9) \<and> position (sprite_e g') \<in> set upper_room)
   \<and> impassable (sprite_P above_the_object) = ''#'' \<and> \<not> game_over above_the_object
   \<and> pushed above_the_object (Some 1) 1 \<and> exit_push (position (sprite_e above_the_object)) 1
   \<and> (\<exists>g'. play above_the_object (Some 1) 0 = Inr g' \<and> position (sprite_e g') = (3, 9)
         \<and> position (sprite_P g') = (2, 9))"
proof -
  have a: "impassable (sprite_P at_the_door) = ''#''" "\<not> game_over at_the_door"
    "position (sprite_e at_the_door) = (3, 9)"
    by (simp_all add: at_the_door_def)
  have pa: "pushed at_the_door (Some 0) 0" "\<not> exit_push (position (sprite_e at_the_door)) 0"
    "\<not> obstructed at_the_door 0" "shift (position (sprite_e at_the_door)) (motion 0) = (2, 9)"
    by (simp_all add: pushed_def exit_push_def obstructed_def board_at_render at_the_door_def
        shift_def behind_def motion_def backdrop_def MAZES_ART_def)
  have b: "impassable (sprite_P above_the_object) = ''#''" "\<not> game_over above_the_object"
    "position (sprite_e above_the_object) = (3, 9)" "position (sprite_P above_the_object) = (2, 9)"
    by (simp_all add: above_the_object_def)
  have pb: "pushed above_the_object (Some 1) 1" "exit_push (position (sprite_e above_the_object)) 1"
    by (simp_all add: pushed_def exit_push_def above_the_object_def behind_def motion_def)
  have one: "\<exists>g'. play at_the_door (Some 0) 0 = Inr g' \<and> position (sprite_e at_the_door) = (3, 9)
         \<and> position (sprite_e g') = (2, 9) \<and> position (sprite_e g') \<in> set upper_room"
  proof -
    from moveable_object_push [OF a(1,2), of "Some 0" 0] obtain g' where
      g': "play at_the_door (Some 0) 0 = Inr g'"
      and mv: "\<forall>d\<in>{0, 1, 2, 3}.
          (position (sprite_e g') = shift (position (sprite_e at_the_door)) (motion d))
            = (pushed at_the_door (Some 0) d \<and> \<not> exit_push (position (sprite_e at_the_door)) d
                \<and> \<not> obstructed at_the_door d)"
      and rm: "reachable at_the_door \<longrightarrow> position (sprite_e at_the_door) \<in> set upper_room
            \<and> position (sprite_e g') \<in> set upper_room"
      by (elim exE conjE)
    from mv have "(position (sprite_e g') = shift (position (sprite_e at_the_door)) (motion 0))
            = (pushed at_the_door (Some 0) 0 \<and> \<not> exit_push (position (sprite_e at_the_door)) 0
                \<and> \<not> obstructed at_the_door 0)"
      by (rule bspec) simp
    with pa have "position (sprite_e g') = (2, 9)" by simp
    with g' rm reachable_at_the_door a(3) show ?thesis by blast
  qed
  have two: "\<exists>g'. play above_the_object (Some 1) 0 = Inr g' \<and> position (sprite_e g') = (3, 9)
         \<and> position (sprite_P g') = (2, 9)"
  proof -
    from moveable_object_push [OF b(1,2), of "Some 1" 0] obtain g' where
      g': "play above_the_object (Some 1) 0 = Inr g'"
      and st: "\<forall>d\<in>{0, 1, 2, 3}. pushed above_the_object (Some 1) d
            \<and> (obstructed above_the_object d \<or> exit_push (position (sprite_e above_the_object)) d)
          \<longrightarrow> position (sprite_e g') = position (sprite_e above_the_object)
              \<and> position (sprite_P g') = position (sprite_P above_the_object)"
      by (elim exE conjE)
    from st have "pushed above_the_object (Some 1) 1
            \<and> (obstructed above_the_object 1 \<or> exit_push (position (sprite_e above_the_object)) 1)
          \<longrightarrow> position (sprite_e g') = position (sprite_e above_the_object)
              \<and> position (sprite_P g') = position (sprite_P above_the_object)"
      by (rule bspec) simp
    with pb b(3,4) have "position (sprite_e g') = (3, 9) \<and> position (sprite_P g') = (2, 9)"
      by simp
    with g' show ?thesis by blast
  qed
  from a pa b pb one two reachable_at_the_door show ?thesis by simp
qed

section \<open>Properties of the adapter: painting\<close>

lemma paint_key_board:
  "r < h \<Longrightarrow> c < w \<Longrightarrow>
   fst (paint_key h w col lm pert (board, bm)) ! r ! c =
     (if \<not> bm ! r ! c then tint (if lm ! r ! c then col else (0, 0, 0)) (pert ! r ! c)
      else board ! r ! c)"
  by (simp add: paint_key_def tint_def Let_def)

lemma paint_key_mask:
  "r < h \<Longrightarrow> c < w \<Longrightarrow>
   snd (paint_key h w col lm pert (board, bm)) ! r ! c = (lm ! r ! c \<or> bm ! r ! c)"
  by (simp add: paint_key_def)

lemma zeros_nth: "r < h \<Longrightarrow> c < w \<Longrightarrow> zeros h w ! r ! c = 0"
  by (simp add: zeros_def)

lemma paint_loop_cell:
  assumes "paint_loop h w cols lays noise i keys (board, bm) = Inr (board', bm')"
    and "r < h" and "c < w"
  shows "board' ! r ! c =
      (if bm ! r ! c \<or> keys = [] then board ! r ! c
       else case first_cover lays r c i keys of
              Some (j, key) \<Rightarrow> tint (color_of cols key) (if key = CHR ''@'' then noise j ! r ! c else 0)
            | None \<Rightarrow> tint (0, 0, 0) (leftover noise i keys r c))
     \<and> bm' ! r ! c = (bm ! r ! c \<or> first_cover lays r c i keys \<noteq> None)"
  using assms
proof (induction keys arbitrary: i board bm)
  case Nil
  then show ?case by simp
next
  case (Cons key keys)
  from Cons.prems(1) obtain palette lm where
    cols: "cols = Some palette" and lm: "lays key = Some lm" and sh: "has_shape h w lm"
    by (auto split: option.splits if_splits)
  let ?col = "case palette key of Some col \<Rightarrow> col | None \<Rightarrow> (0, 0, 0)"
  let ?pert = "if key = CHR ''@'' then noise i else zeros h w"
  let ?acc = "paint_key h w ?col lm ?pert (board, bm)"
  from Cons.prems(1) cols lm sh
  have rest: "paint_loop h w cols lays noise (Suc i) keys (fst ?acc, snd ?acc) = Inr (board', bm')"
    by (simp add: Let_def)
  note IH = Cons.IH [OF rest Cons.prems(2,3)]
  have b1: "fst ?acc ! r ! c =
     (if \<not> bm ! r ! c then tint (if lm ! r ! c then ?col else (0, 0, 0)) (?pert ! r ! c)
      else board ! r ! c)"
    using Cons.prems(2,3) by (rule paint_key_board)
  have m1: "snd ?acc ! r ! c = (lm ! r ! c \<or> bm ! r ! c)"
    using Cons.prems(2,3) by (rule paint_key_mask)
  have pert: "?pert ! r ! c = (if key = CHR ''@'' then noise i ! r ! c else 0)"
    using Cons.prems(2,3) by (simp add: zeros_nth)
  have col: "color_of cols key = ?col" by (simp add: color_of_def cols)
  show ?case
  proof (cases "bm ! r ! c")
    case True
    with IH b1 m1 show ?thesis by simp
  next
    case False
    show ?thesis
    proof (cases "lm ! r ! c")
      case True
      with False IH b1 m1 pert col lm show ?thesis by simp
    next
      case nlm: False
      show ?thesis
      proof (cases "keys = []")
        case True
        with False nlm IH b1 m1 pert lm show ?thesis
          by (simp add: leftover_def)
      next
        case nk: False
        with False nlm IH b1 m1 pert lm show ?thesis
          by (simp add: leftover_def split: option.splits)
      qed
    qed
  qed
qed

lemma paint_padded:
  "paint_board padded_env (layers padded_obs) True toy_noise
       = Inr [[(93, 93, 93), (175, 255, 15), (14, 14, 14)]]"
  by (simp add: padded_env_def init_def padded_engine_def Let_def padded_obs_def
      paint_board_def shape_def has_shape_def paint_key_def make_colors_def toy_noise_def zeros_def)

lemma padded_facts:
  "painted_shape padded_env True = (1, 3)"
  "render_order padded_env = ''a@''"
  "color_of (colors padded_env) CHR ''@'' = (90, 90, 90)"
  by (simp_all add: padded_env_def init_def padded_engine_def Let_def padded_obs_def
      painted_shape_def shape_def color_of_def make_colors_def)


text \<open>
  What the painting loop leaves on each cell of the board.  A cell that some layer of the
  render order covers has the colour of the first such layer (black when the layer has no
  configured colour), with the draw of that round added to the three channels when the
  layer is \<^verbatim>\<open>'@'\<close>.  A cell that no layer covers holds the perturbation of the last round.
\<close>

theorem paint_board_cell:
  assumes "paint_board env lays cropped noise = Inr img"
    and "r < fst (painted_shape env cropped)" and "c < snd (painted_shape env cropped)"
  shows "img ! r ! c =
     (case first_cover lays r c 0 (render_order env) of
        Some (j, key) \<Rightarrow>
          tint (color_of (colors env) key) (if key = CHR ''@'' then noise j ! r ! c else 0)
      | None \<Rightarrow> tint (0, 0, 0) (leftover noise 0 (render_order env) r c))"
proof -
  from assms(1) obtain obs where
    obs: "(if \<not> cropped then last_uncropped_observations env
            else last_cropped_observations env) = Some obs"
    by (auto simp: paint_board_def split: option.splits)
  let ?h = "fst (shape (obs_board obs))" and ?w = "snd (shape (obs_board obs))"
  from assms(2,3) obs have rc: "r < ?h" "c < ?w"
    by (simp_all add: painted_shape_def)
  from assms(1) obs obtain bm' where
    loop: "paint_loop ?h ?w (colors env) lays noise 0 (render_order env)
       (replicate ?h (replicate ?w (0, 0, 0)), replicate ?h (replicate ?w False)) = Inr (img, bm')"
    by (auto simp: paint_board_def Let_def split: sum.splits)
  from paint_loop_cell [OF loop rc] rc show ?thesis
    by (auto simp: leftover_def tint_def split: option.splits)
qed


theorem paint_board_cell_witness:
  "paint_board padded_env (layers padded_obs) True toy_noise
       = Inr [[(93, 93, 93), (175, 255, 15), (14, 14, 14)]]
   \<and> (0::nat) < fst (painted_shape padded_env True) \<and> (2::nat) < snd (painted_shape padded_env True)
   \<and> first_cover (layers padded_obs) 0 0 0 (render_order padded_env) = Some (1, CHR ''@'')
   \<and> [[(93, 93, 93), (175, 255, 15), (14, 14, 14)]] ! 0 ! 0
       = tint (color_of (colors padded_env) CHR ''@'') (toy_noise 1 ! 0 ! 0)
   \<and> first_cover (layers padded_obs) 0 2 0 (render_order padded_env) = None
   \<and> [[(93, 93, 93), (175, 255, 15), (14, 14, 14)]] ! 0 ! 2
       = tint (0, 0, 0) (leftover toy_noise 0 (render_order padded_env) 0 2)"
proof -
  have sh: "(0::nat) < fst (painted_shape padded_env True)"
    "(2::nat) < snd (painted_shape padded_env True)"
    "(0::nat) < snd (painted_shape padded_env True)"
    by (simp_all add: padded_facts)
  have fc: "first_cover (layers padded_obs) 0 0 0 (render_order padded_env) = Some (1, CHR ''@'')"
    "first_cover (layers padded_obs) 0 2 0 (render_order padded_env) = None"
    by (simp_all add: padded_facts padded_obs_def)
  from paint_board_cell [OF paint_padded sh(1,3)] paint_board_cell [OF paint_padded sh(1,2)]
  show ?thesis
    by (simp add: fc sh paint_padded)
qed

lemma paint_padded_dark:
  "paint_board padded_env (layers padded_obs) True dark_noise
       = Inr [[(93, 93, 93), (175, 255, 15), (- 7, - 7, - 7)]]"
  by (simp add: padded_env_def init_def padded_engine_def Let_def padded_obs_def
      paint_board_def shape_def has_shape_def paint_key_def make_colors_def dark_noise_def zeros_def)

text \<open>
  Claim C6 fails on the code.  On a cropped board of one row and three cells whose third
  cell no layer covers, with the render order \<^verbatim>\<open>'a@'\<close>, \<^verbatim>\<open>_paint_board\<close> leaves the draw of
  the \<^verbatim>\<open>'@'\<close> round on the third cell: it is painted (14, 14, 14) for the draw 14 and
  (-7, -7, -7) for the draw -7, where the claim has black.
\<close>

theorem paint_board_uncovered:
  "render_order padded_env = ''a@''
   \<and> first_cover (layers padded_obs) 0 2 0 (render_order padded_env) = None
   \<and> toy_noise 1 = [[3, - 15, 14]] \<and> dark_noise 1 = [[3, - 15, - 7]]
   \<and> paint_board padded_env (layers padded_obs) True toy_noise
       = Inr [[(93, 93, 93), (175, 255, 15), (14, 14, 14)]]
   \<and> paint_board padded_env (layers padded_obs) True dark_noise
       = Inr [[(93, 93, 93), (175, 255, 15), (- 7, - 7, - 7)]]
   \<and> [[(93, 93, 93), (175, 255, 15), (14, 14, 14)]] ! 0 ! 2 \<noteq> ((0, 0, 0) :: color)
   \<and> [[(93, 93, 93), (175, 255, 15), (- 7, - 7, - 7)]] ! 0 ! 2 \<noteq> ((0, 0, 0) :: color)"
proof -
  have "first_cover (layers padded_obs) 0 2 0 (render_order padded_env) = None"
    by (simp add: padded_facts padded_obs_def)
  with paint_padded paint_padded_dark show ?thesis
    by (simp add: padded_facts toy_noise_def dark_noise_def)
qed

section \<open>Properties of the adapter: rewards, episodes and counters\<close>

lemma char_goal_simps [simp]:
  "char_goal env obs [] = False"
  "char_goal env obs (ch # chars) =
     ((ch \<noteq> CHR '' '' \<and> ch \<in> set (objects env) \<and> seen ch obs
        \<and> GoalChar ch = snd (extrinsic_reward_spec env)) \<or> char_goal env obs chars)"
  by (simp_all add: char_goal_def)

lemma char_goal_visible:
  "char_goal env obs (state_layer_chars env) = goal_visible env obs"
  by (cases "snd (extrinsic_reward_spec env)")
    (auto simp: char_goal_def goal_visible_def list_ex_iff)

lemma mask_loop_reward:
  "mask_loop env obs chars (reward, vf, st) = Inr (reward', vf', st') \<Longrightarrow>
   reward' = (if \<not> extrinsic_coord_based env \<and> char_goal env obs chars
              then Some (extrinsic_reward env) else reward)"
proof (induction chars arbitrary: reward vf st)
  case Nil
  then show ?case by simp
next
  case (Cons ch chars)
  show ?case
  proof (cases "ch \<noteq> CHR '' ''")
    case False
    with Cons show ?thesis by simp
  next
    case True
    with Cons.prems obtain m where m: "layers obs ch = Some m"
      by (auto split: option.splits)
    show ?thesis
    proof (cases "ch \<in> set (objects env) \<and> contains_one m")
      case False
      with True m Cons.prems
      have "mask_loop env obs chars (reward, vf, st @ [m]) = Inr (reward', vf', st')" by auto
      from Cons.IH [OF this] False True m show ?thesis by (auto simp: seen_def)
    next
      case vis: True
      with True m Cons.prems obtain n where n: "vf ch = Some n"
        by (auto split: option.splits)
      let ?r = "if \<not> extrinsic_coord_based env \<and> GoalChar ch = snd (extrinsic_reward_spec env)
                then Some (extrinsic_reward env) else reward"
      from True m vis n Cons.prems
      have "mask_loop env obs chars (?r, vf(ch \<mapsto> n + 1), st @ [m]) = Inr (reward', vf', st')"
        by simp
      from Cons.IH [OF this] vis True m show ?thesis by (auto simp: seen_def)
    qed
  qed
qed

lemma rgb_loop_reward:
  "rgb_loop env obs chars (reward, vf) = Inr (reward', vf') \<Longrightarrow>
   reward' = (if extrinsic_reward env > 0 \<and> \<not> extrinsic_coord_based env \<and> char_goal env obs chars
              then Some (extrinsic_reward env) else reward)"
proof (induction chars arbitrary: reward vf)
  case Nil
  then show ?case by simp
next
  case (Cons ch chars)
  show ?case
  proof (cases "ch \<noteq> CHR '' ''")
    case False
    with Cons show ?thesis by simp
  next
    case True
    with Cons.prems obtain m where m: "layers obs ch = Some m"
      by (auto split: option.splits)
    show ?thesis
    proof (cases "ch \<in> set (objects env) \<and> contains_one m")
      case False
      with True m Cons.prems
      have "rgb_loop env obs chars (reward, vf) = Inr (reward', vf')" by auto
      from Cons.IH [OF this] False True m show ?thesis by (auto simp: seen_def)
    next
      case vis: True
      with True m Cons.prems obtain n where n: "vf ch = Some n"
        by (auto split: option.splits)
      let ?r = "if extrinsic_reward env > 0 \<and> \<not> extrinsic_coord_based env
                   \<and> GoalChar ch = snd (extrinsic_reward_spec env)
                then Some (extrinsic_reward env) else reward"
      from True m vis n Cons.prems
      have "rgb_loop env obs chars (?r, vf(ch \<mapsto> n + 1)) = Inr (reward', vf')"
        by simp
      from Cons.IH [OF this] vis True m show ?thesis by (auto simp: seen_def)
    qed
  qed
qed

lemma mask_loop_vf:
  "mask_loop env obs chars (reward, vf, st) = Inr (reward', vf', st') \<Longrightarrow> distinct chars \<Longrightarrow>
   vf c = Some n \<Longrightarrow> vf' c = Some (if counted env obs chars c then n + 1 else n)"
proof (induction chars arbitrary: reward vf st n)
  case Nil
  then show ?case by (simp add: counted_def)
next
  case (Cons ch chars)
  from Cons.prems(2) have d: "distinct chars" "ch \<notin> set chars" by simp_all
  show ?case
  proof (cases "ch \<noteq> CHR '' ''")
    case False
    with Cons.prems have "mask_loop env obs chars (reward, vf, st) = Inr (reward', vf', st')"
      by simp
    from Cons.IH [OF this d(1) Cons.prems(3)] False show ?thesis
      by (auto simp: counted_def)
  next
    case True
    with Cons.prems obtain m where m: "layers obs ch = Some m"
      by (auto split: option.splits)
    show ?thesis
    proof (cases "ch \<in> set (objects env) \<and> contains_one m")
      case False
      with True m Cons.prems
      have "mask_loop env obs chars (reward, vf, st @ [m]) = Inr (reward', vf', st')" by auto
      from Cons.IH [OF this d(1) Cons.prems(3)] False True m d(2) show ?thesis
        by (auto simp: counted_def seen_def)
    next
      case vis: True
      with True m Cons.prems obtain k where k: "vf ch = Some k"
        by (auto split: option.splits)
      let ?r = "if \<not> extrinsic_coord_based env \<and> GoalChar ch = snd (extrinsic_reward_spec env)
                then Some (extrinsic_reward env) else reward"
      from True m vis k Cons.prems
      have rest: "mask_loop env obs chars (?r, vf(ch \<mapsto> k + 1), st @ [m]) = Inr (reward', vf', st')"
        by simp
      show ?thesis
      proof (cases "c = ch")
        case True
        with k Cons.prems(3) have "(vf(ch \<mapsto> k + 1)) c = Some (n + 1)" by simp
        from Cons.IH [OF rest d(1) this] True d(2) vis m \<open>ch \<noteq> CHR '' ''\<close> show ?thesis
          by (auto simp: counted_def seen_def)
      next
        case False
        with Cons.prems(3) have "(vf(ch \<mapsto> k + 1)) c = Some n" by simp
        from Cons.IH [OF rest d(1) this] False show ?thesis
          by (auto simp: counted_def)
      qed
    qed
  qed
qed

lemma rgb_loop_vf:
  "rgb_loop env obs chars (reward, vf) = Inr (reward', vf') \<Longrightarrow> distinct chars \<Longrightarrow>
   vf c = Some n \<Longrightarrow> vf' c = Some (if counted env obs chars c then n + 1 else n)"
proof (induction chars arbitrary: reward vf n)
  case Nil
  then show ?case by (simp add: counted_def)
next
  case (Cons ch chars)
  from Cons.prems(2) have d: "distinct chars" "ch \<notin> set chars" by simp_all
  show ?case
  proof (cases "ch \<noteq> CHR '' ''")
    case False
    with Cons.prems have "rgb_loop env obs chars (reward, vf) = Inr (reward', vf')"
      by simp
    from Cons.IH [OF this d(1) Cons.prems(3)] False show ?thesis
      by (auto simp: counted_def)
  next
    case True
    with Cons.prems obtain m where m: "layers obs ch = Some m"
      by (auto split: option.splits)
    show ?thesis
    proof (cases "ch \<in> set (objects env) \<and> contains_one m")
      case False
      with True m Cons.prems
      have "rgb_loop env obs chars (reward, vf) = Inr (reward', vf')" by auto
      from Cons.IH [OF this d(1) Cons.prems(3)] False True m d(2) show ?thesis
        by (auto simp: counted_def seen_def)
    next
      case vis: True
      with True m Cons.prems obtain k where k: "vf ch = Some k"
        by (auto split: option.splits)
      let ?r = "if extrinsic_reward env > 0 \<and> \<not> extrinsic_coord_based env
                   \<and> GoalChar ch = snd (extrinsic_reward_spec env)
                then Some (extrinsic_reward env) else reward"
      from True m vis k Cons.prems
      have rest: "rgb_loop env obs chars (?r, vf(ch \<mapsto> k + 1)) = Inr (reward', vf')"
        by simp
      show ?thesis
      proof (cases "c = ch")
        case True
        with k Cons.prems(3) have "(vf(ch \<mapsto> k + 1)) c = Some (n + 1)" by simp
        from Cons.IH [OF rest d(1) this] True d(2) vis m \<open>ch \<noteq> CHR '' ''\<close> show ?thesis
          by (auto simp: counted_def seen_def)
      next
        case False
        with Cons.prems(3) have "(vf(ch \<mapsto> k + 1)) c = Some n" by simp
        from Cons.IH [OF rest d(1) this] False show ?thesis
          by (auto simp: counted_def)
      qed
    qed
  qed
qed

lemma count_episodes_num:
  "count_episodes vf objs num = Inr num' \<Longrightarrow> distinct objs \<Longrightarrow> vf c = Some n \<Longrightarrow>
   num c = Some k \<Longrightarrow> num' c = Some (if c \<in> set objs \<and> n > 0 then k + 1 else k)"
proof (induction objs arbitrary: num k)
  case Nil
  then show ?case by simp
next
  case (Cons ch objs)
  from Cons.prems(2) have d: "distinct objs" "ch \<notin> set objs" by simp_all
  from Cons.prems(1) obtain j where j: "vf ch = Some j" by (auto split: option.splits)
  show ?case
  proof (cases "j > 0")
    case False
    with j Cons.prems(1) have "count_episodes vf objs num = Inr num'" by simp
    from Cons.IH [OF this d(1) Cons.prems(3,4)] False j Cons.prems(3) show ?thesis by auto
  next
    case True
    with j Cons.prems(1) obtain i where i: "num ch = Some i"
      and rest: "count_episodes vf objs (num(ch \<mapsto> i + 1)) = Inr num'"
      by (auto split: option.splits)
    show ?thesis
    proof (cases "c = ch")
      case c: True
      with i Cons.prems(4) have "(num(ch \<mapsto> i + 1)) c = Some (k + 1)" by simp
      from Cons.IH [OF rest d(1) Cons.prems(3) this] c d(2) j True Cons.prems(3) show ?thesis
        by auto
    next
      case c: False
      with Cons.prems(4) have "(num(ch \<mapsto> i + 1)) c = Some k" by simp
      from Cons.IH [OF rest d(1) Cons.prems(3) this] c show ?thesis by auto
    qed
  qed
qed

lemma env_same_observed: "\<exists>st vf. env = env\<lparr>state := st, visitation_frequency := vf\<rparr>"
  by (rule exI [of _ "state env"], rule exI [of _ "visitation_frequency env"]) simp

lemma env_same_heatmap: "\<exists>hm ve. env = env\<lparr>heatmap := hm, visitation_entropy := ve\<rparr>"
  by (rule exI [of _ "heatmap env"], rule exI [of _ "visitation_entropy env"]) simp

lemma observe_form:
  "observe env noise obs reward = Inr (env1, reward') \<Longrightarrow>
   \<exists>st vf. env1 = env\<lparr>state := st, visitation_frequency := vf\<rparr>"
  by (auto simp: observe_def split: if_splits sum.splits intro: env_same_observed)

lemma observe_reward:
  assumes "observe env noise obs reward = Inr (env1, reward')"
  shows "reward' =
     (if (obs_type env = ''mask'' \<or> obs_type env = ''rgb'' \<and> extrinsic_reward env > 0)
         \<and> \<not> extrinsic_coord_based env \<and> goal_visible env obs
      then Some (extrinsic_reward env) else reward)"
proof (cases "obs_type env = ''mask''")
  case True
  with assms obtain vf st where
    "mask_loop env obs (state_layer_chars env) (reward, visitation_frequency env, []) = Inr (reward', vf, st)"
    by (auto simp: observe_def split: sum.splits)
  from mask_loop_reward [OF this] True show ?thesis by (simp add: char_goal_visible)
next
  case False
  show ?thesis
  proof (cases "obs_type env = ''rgb''")
    case True
    with assms obtain vf where
      "rgb_loop env obs (state_layer_chars env) (reward, visitation_frequency env) = Inr (reward', vf)"
      by (auto simp: observe_def split: sum.splits)
    from rgb_loop_reward [OF this] True show ?thesis by (simp add: char_goal_visible)
  next
    case nr: False
    with False assms show ?thesis by (simp add: observe_def)
  qed
qed

lemma observe_vf:
  assumes "observe env noise obs reward = Inr (env1, reward')"
    and "obs_type env = ''mask'' \<or> obs_type env = ''rgb''"
    and "distinct (state_layer_chars env)" and "visitation_frequency env c = Some n"
  shows "visitation_frequency env1 c =
     Some (if counted env obs (state_layer_chars env) c then n + 1 else n)"
proof (cases "obs_type env = ''mask''")
  case True
  with assms(1) obtain vf st where
    l: "mask_loop env obs (state_layer_chars env) (reward, visitation_frequency env, []) = Inr (reward', vf, st)"
    and "env1 = env\<lparr>state := Some (MaskState st), visitation_frequency := vf\<rparr>"
    by (auto simp: observe_def split: sum.splits)
  with mask_loop_vf [OF l assms(3,4)] show ?thesis by simp
next
  case False
  with assms(2) have rgb: "obs_type env = ''rgb''" by simp
  with assms(1) obtain vf img where
    l: "rgb_loop env obs (state_layer_chars env) (reward, visitation_frequency env) = Inr (reward', vf)"
    and "env1 = env\<lparr>state := Some (RgbState (resize env img)), visitation_frequency := vf\<rparr>"
    by (auto simp: observe_def split: sum.splits)
  with rgb_loop_vf [OF l assms(3,4)] show ?thesis by simp
qed

lemma update_heatmap_form:
  "update_heatmap eng g env = Inr env' \<Longrightarrow>
   \<exists>hm ve. env' = env\<lparr>heatmap := hm, visitation_entropy := ve\<rparr>"
  by (auto simp: update_heatmap_def split: option.splits if_splits sum.splits
      intro: env_same_heatmap)

lemma coordinate_reward_eq:
  "coordinate_reward eng env g reward = Inr reward1 \<Longrightarrow>
   reward1 = (if extrinsic_reward env > 0 \<and> extrinsic_coord_based env \<and> goal_reached eng env g
              then Some (extrinsic_reward env) else reward)"
  by (cases "snd (extrinsic_reward_spec env)")
    (auto simp: coordinate_reward_def goal_reached_def split: if_splits option.splits)

lemma update_for_game_step_form:
  assumes "update_for_game_step eng noise env obs reward = Inr env'"
  shows "\<exists>g reward1 reward2 st vf hm ve.
     current_game env = Some g
     \<and> coordinate_reward eng env g reward = Inr reward1
     \<and> observe env noise obs reward1 = Inr (env\<lparr>state := st, visitation_frequency := vf\<rparr>, reward2)
     \<and> env' = env\<lparr>state := st, visitation_frequency := vf, heatmap := hm, visitation_entropy := ve,
           last_reward := Some (game_reward env reward2),
           env_game_over := (max_iterations env \<le> eng_frame eng g \<or> eng_game_over eng g)\<rparr>"
proof -
  from assms obtain g reward1 env1 reward2 env2 where
    g: "current_game env = Some g"
    and c: "coordinate_reward eng env g reward = Inr reward1"
    and ob: "observe env noise obs reward1 = Inr (env1, reward2)"
    and hm: "update_heatmap eng g env1 = Inr env2"
    and e: "env' = env2\<lparr>last_reward := Some (case reward2 of Some x \<Rightarrow> x | None \<Rightarrow> default_reward env2),
              env_game_over := (if eng_frame eng g \<ge> max_iterations env2 then True
                                else eng_game_over eng g)\<rparr>"
    by (auto simp: update_for_game_step_def split: option.splits sum.splits)
  from observe_form [OF ob] obtain st vf where
    env1: "env1 = env\<lparr>state := st, visitation_frequency := vf\<rparr>" by blast
  from update_heatmap_form [OF hm] obtain h ve where
    env2: "env2 = env1\<lparr>heatmap := h, visitation_entropy := ve\<rparr>" by blast
  have "env' = env\<lparr>state := st, visitation_frequency := vf, heatmap := h, visitation_entropy := ve,
           last_reward := Some (game_reward env reward2),
           env_game_over := (max_iterations env \<le> eng_frame eng g \<or> eng_game_over eng g)\<rparr>"
    by (simp add: e env2 env1 game_reward_def split: option.splits)
  with g c ob env1 show ?thesis by blast
qed

lemma step_active:
  assumes g: "current_game env = Some g" and s: "step eng noise env action = Inr res"
    and p: "eng_play eng g action = (g', observations, reward)"
  shows "\<exists>lc env3.
     update_for_game_step eng noise
        (env\<lparr>current_game := Some g', last_uncropped_observations := Some observations,
              last_cropped_observations := lc\<rparr>)
        (used_observation eng g' observations) reward = Inr env3
     \<and> res = (if env_game_over env3 then env3\<lparr>current_game := None\<rparr> else env3,
              state env3, last_reward env3, env_game_over env3,
              Some \<lparr>info_visitation_frequency = visitation_frequency env3,
                    info_first_time_visit = first_visit_time env3,
                    info_visitation_entropy = visitation_entropy env3,
                    info_episodes = episodes env3,
                    info_num_obj_eps = num_obj_eps env3\<rparr>)"
proof (cases "crop_observations eng g' observations")
  case None
  let ?env2 = "env\<lparr>current_game := Some g', last_uncropped_observations := Some observations\<rparr>"
  have e: "?env2 = env\<lparr>current_game := Some g', last_uncropped_observations := Some observations,
              last_cropped_observations := last_cropped_observations env\<rparr>"
    by simp
  from s g p None obtain env3 where
    u: "update_for_game_step eng noise ?env2 observations reward = Inr env3"
    and res: "res = (if env_game_over env3 then env3\<lparr>current_game := None\<rparr> else env3,
              state env3, last_reward env3, env_game_over env3,
              Some \<lparr>info_visitation_frequency = visitation_frequency env3,
                    info_first_time_visit = first_visit_time env3,
                    info_visitation_entropy = visitation_entropy env3,
                    info_episodes = episodes env3,
                    info_num_obj_eps = num_obj_eps env3\<rparr>)"
    by (auto simp: step_def Let_def split: sum.splits)
  from u have "update_for_game_step eng noise
        (env\<lparr>current_game := Some g', last_uncropped_observations := Some observations,
              last_cropped_observations := last_cropped_observations env\<rparr>)
        (used_observation eng g' observations) reward = Inr env3"
    by (simp add: used_observation_def None)
  with res show ?thesis by blast
next
  case (Some obs)
  let ?env2 = "env\<lparr>current_game := Some g', last_uncropped_observations := Some observations,
              last_cropped_observations := Some obs\<rparr>"
  from s g p Some obtain env3 where
    u: "update_for_game_step eng noise ?env2 obs reward = Inr env3"
    and res: "res = (if env_game_over env3 then env3\<lparr>current_game := None\<rparr> else env3,
              state env3, last_reward env3, env_game_over env3,
              Some \<lparr>info_visitation_frequency = visitation_frequency env3,
                    info_first_time_visit = first_visit_time env3,
                    info_visitation_entropy = visitation_entropy env3,
                    info_episodes = episodes env3,
                    info_num_obj_eps = num_obj_eps env3\<rparr>)"
    by (auto simp: step_def Let_def split: sum.splits)
  from u have "update_for_game_step eng noise ?env2
        (used_observation eng g' observations) reward = Inr env3"
    by (simp add: used_observation_def Some)
  with res show ?thesis by blast
qed

lemma step_inactive:
  "current_game env = None \<Longrightarrow>
   step eng noise env action = Inr (env\<lparr>state := None\<rparr>, None, last_reward env, env_game_over env, None)"
  by (simp add: step_def)

text \<open>
  Claim C5.  When no game is active, \<^verbatim>\<open>step\<close> returns the state \<^verbatim>\<open>None\<close>, the last recorded
  reward, the last game-over flag and an empty info dictionary, and the adapter is
  unchanged but for its state attribute (so no game was stepped, and counters, episode
  number and heat map are as before).  After a step that returns done, no game is active,
  and the next step returns the state \<^verbatim>\<open>None\<close>, the same reward, done and an empty info.
\<close>

theorem step_without_game:
  "(current_game env = None \<longrightarrow>
      step eng noise env action
        = Inr (env\<lparr>state := None\<rparr>, None, last_reward env, env_game_over env, None))
   \<and> (step eng noise env action = Inr res \<and> step_done res \<longrightarrow>
        current_game (step_env res) = None
        \<and> step eng noise' (step_env res) action'
            = Inr ((step_env res)\<lparr>state := None\<rparr>, None, step_reward res, True, None))"
proof -
  have "current_game (step_env res) = None
        \<and> step eng noise' (step_env res) action'
            = Inr ((step_env res)\<lparr>state := None\<rparr>, None, step_reward res, True, None)"
    if s: "step eng noise env action = Inr res" and d: "step_done res"
  proof (cases "current_game env")
    case None
    with s have res: "res = (env\<lparr>state := None\<rparr>, None, last_reward env, env_game_over env, None)"
      by (simp add: step_inactive)
    with d None have "current_game (step_env res) = None" "last_reward (step_env res) = step_reward res"
      "env_game_over (step_env res)"
      by (simp_all add: step_env_def step_done_def step_reward_def)
    then show ?thesis by (simp add: step_inactive)
  next
    case (Some g)
    obtain g' observations reward where p: "eng_play eng g action = (g', observations, reward)"
      by (cases "eng_play eng g action") auto
    from step_active [OF Some s p] obtain env3 where
      res: "res = (if env_game_over env3 then env3\<lparr>current_game := None\<rparr> else env3,
              state env3, last_reward env3, env_game_over env3,
              Some \<lparr>info_visitation_frequency = visitation_frequency env3,
                    info_first_time_visit = first_visit_time env3,
                    info_visitation_entropy = visitation_entropy env3,
                    info_episodes = episodes env3,
                    info_num_obj_eps = num_obj_eps env3\<rparr>)"
      by blast
    with d have "current_game (step_env res) = None" "last_reward (step_env res) = step_reward res"
      "env_game_over (step_env res)"
      by (simp_all add: step_env_def step_done_def step_reward_def)
    then show ?thesis by (simp add: step_inactive)
  qed
  with step_inactive [of env eng noise action] show ?thesis by blast
qed

lemma goal_reached_stepping:
  "goal_reached eng (env\<lparr>current_game := a, last_uncropped_observations := b,
       last_cropped_observations := c\<rparr>) g = goal_reached eng env g"
  by (cases "snd (extrinsic_reward_spec env)") (simp_all add: goal_reached_def)

lemma goal_visible_stepping:
  "goal_visible (env\<lparr>current_game := a, last_uncropped_observations := b,
       last_cropped_observations := c\<rparr>) obs = goal_visible env obs"
  by (cases "snd (extrinsic_reward_spec env)") (simp_all add: goal_visible_def)

text \<open>
  Claim C4, as corrected.  A step of an active game reports the game's reward, or the
  default reward when the game gave none, except: with a positive extrinsic reward and a
  coordinate-based goal, the extrinsic reward when the named sprite stands on the goal
  coordinate; with a character-based goal, the extrinsic reward when the goal character is
  an object among the state layers and is visible in the observation used, for the
  observation type \<^verbatim>\<open>'mask'\<close> whatever the extrinsic reward is, for \<^verbatim>\<open>'rgb'\<close> only when the
  extrinsic reward is positive, and for no other observation type.
\<close>

theorem step_reports_reward:
  assumes g: "current_game env = Some g" and s: "step eng noise env action = Inr res"
    and p: "eng_play eng g action = (g', observations, reward)"
  shows "step_reward res =
     Some (if \<not> extrinsic_coord_based env
              \<and> goal_visible env (used_observation eng g' observations)
              \<and> (obs_type env = ''mask'' \<or> obs_type env = ''rgb'' \<and> 0 < extrinsic_reward env)
           then extrinsic_reward env
           else if 0 < extrinsic_reward env \<and> extrinsic_coord_based env \<and> goal_reached eng env g'
           then extrinsic_reward env
           else game_reward env reward)"
proof -
  from step_active [OF g s p] obtain lc env3 where
    u: "update_for_game_step eng noise
        (env\<lparr>current_game := Some g', last_uncropped_observations := Some observations,
              last_cropped_observations := lc\<rparr>)
        (used_observation eng g' observations) reward = Inr env3"
    and r: "step_reward res = last_reward env3"
    by (auto simp: step_reward_def)
  let ?env2 = "env\<lparr>current_game := Some g', last_uncropped_observations := Some observations,
              last_cropped_observations := lc\<rparr>"
  let ?obs = "used_observation eng g' observations"
  from update_for_game_step_form [OF u] obtain reward1 reward2 st vf where
    c: "coordinate_reward eng ?env2 g' reward = Inr reward1"
    and ob: "observe ?env2 noise ?obs reward1 = Inr (?env2\<lparr>state := st, visitation_frequency := vf\<rparr>, reward2)"
    and lr: "last_reward env3 = Some (game_reward ?env2 reward2)"
    by auto
  have r1: "reward1 = (if extrinsic_reward env > 0 \<and> extrinsic_coord_based env \<and> goal_reached eng env g'
              then Some (extrinsic_reward env) else reward)"
    using coordinate_reward_eq [OF c] by (simp add: goal_reached_stepping)
  have r2: "reward2 =
     (if (obs_type env = ''mask'' \<or> obs_type env = ''rgb'' \<and> extrinsic_reward env > 0)
         \<and> \<not> extrinsic_coord_based env \<and> goal_visible env ?obs
      then Some (extrinsic_reward env) else reward1)"
    using observe_reward [OF ob] by (simp add: goal_visible_stepping)
  have gr: "game_reward ?env2 reward2 = game_reward env reward2"
    by (simp add: game_reward_def split: option.splits)
  from r lr gr r1 r2 show ?thesis
    by (auto simp: game_reward_def)
qed

lemma step_facts:
  assumes g: "current_game env = Some g" and s: "step eng noise env action = Inr res"
    and p: "eng_play eng g action = (g', observations, reward)"
  shows "step_done res = (max_iterations env \<le> eng_frame eng g' \<or> eng_game_over eng g')"
    and "current_game (step_env res) = (if step_done res then None else Some g')"
    and "max_iterations (step_env res) = max_iterations env"
proof -
  from step_active [OF g s p] obtain lc env3 where
    u: "update_for_game_step eng noise
        (env\<lparr>current_game := Some g', last_uncropped_observations := Some observations,
              last_cropped_observations := lc\<rparr>)
        (used_observation eng g' observations) reward = Inr env3"
    and res: "res = (if env_game_over env3 then env3\<lparr>current_game := None\<rparr> else env3,
              state env3, last_reward env3, env_game_over env3,
              Some \<lparr>info_visitation_frequency = visitation_frequency env3,
                    info_first_time_visit = first_visit_time env3,
                    info_visitation_entropy = visitation_entropy env3,
                    info_episodes = episodes env3,
                    info_num_obj_eps = num_obj_eps env3\<rparr>)"
    by blast
  from update_for_game_step_form [OF u] have
    e3: "env_game_over env3 = (max_iterations env \<le> eng_frame eng g' \<or> eng_game_over eng g')"
      "current_game env3 = Some g'" "max_iterations env3 = max_iterations env"
    by auto
  from res e3 show "step_done res = (max_iterations env \<le> eng_frame eng g' \<or> eng_game_over eng g')"
    by (simp add: step_done_def)
  from res e3 show "current_game (step_env res) = (if step_done res then None else Some g')"
    by (simp add: step_done_def step_env_def)
  from res e3 show "max_iterations (step_env res) = max_iterations env"
    by (simp add: step_env_def)
qed

lemma steps_frames:
  assumes cnt: "\<And>g a. eng_frame eng (fst (eng_play eng g a)) = eng_frame eng g + 1"
  shows "steps eng env acts = Inr (env', dones) \<Longrightarrow> current_game env = Some g
     \<Longrightarrow> True \<notin> set dones
     \<Longrightarrow> \<exists>g'. current_game env' = Some g' \<and> eng_frame eng g' = eng_frame eng g + int (length acts)
           \<and> max_iterations env' = max_iterations env
           \<and> (acts \<noteq> [] \<longrightarrow> eng_frame eng g' < max_iterations env)"
proof (induction acts arbitrary: env g dones)
  case Nil
  then show ?case by simp
next
  case (Cons x acts)
  obtain noise action where x: "x = (noise, action)" by (cases x)
  from Cons.prems(1) x obtain res dones' where
    s: "step eng noise env action = Inr res"
    and rest: "steps eng (step_env res) acts = Inr (env', dones')"
    and dones: "dones = step_done res # dones'"
    by (auto split: sum.splits)
  obtain g1 observations reward where p: "eng_play eng g action = (g1, observations, reward)"
    by (cases "eng_play eng g action") auto
  from Cons.prems(3) dones have nd: "\<not> step_done res" "True \<notin> set dones'" by auto
  note f = step_facts [OF Cons.prems(2) s p]
  from f(2) nd have g1: "current_game (step_env res) = Some g1" by simp
  from f(1) nd have lt: "eng_frame eng g1 < max_iterations env" by simp
  from cnt [of g action] p have fr: "eng_frame eng g1 = eng_frame eng g + 1" by simp
  from Cons.IH [OF rest g1 nd(2)] obtain g' where
    IH: "current_game env' = Some g'" "eng_frame eng g' = eng_frame eng g1 + int (length acts)"
      "max_iterations env' = max_iterations (step_env res)"
      "acts \<noteq> [] \<longrightarrow> eng_frame eng g' < max_iterations (step_env res)"
    by blast
  show ?case
  proof (cases "acts = []")
    case True
    with IH fr lt f(3) show ?thesis by simp
  next
    case False
    with IH fr f(3) show ?thesis by simp
  qed
qed

lemma reset_facts:
  assumes "reset eng noise env = Inr (env1, st)"
  shows "current_game env1 = Some (fst (eng_its_showtime eng (eng_make_game eng)))"
    and "max_iterations env1 = max_iterations env"
proof -
  obtain g observations reward where sh: "eng_its_showtime eng (eng_make_game eng) = (g, observations, reward)"
    by (cases "eng_its_showtime eng (eng_make_game eng)") auto
  from assms sh obtain env3 obs where
    u: "update_for_game_step eng noise env3 obs reward = Inr env1"
    and c: "current_game env3 = Some g" "max_iterations env3 = max_iterations env"
    by (auto simp: reset_def Let_def split: sum.splits option.splits)
  from update_for_game_step_form [OF u] c sh
  show "current_game env1 = Some (fst (eng_its_showtime eng (eng_make_game eng)))"
    and "max_iterations env1 = max_iterations env"
    by auto
qed

text \<open>
  Claim C10.  Construction succeeds only with \<^verbatim>\<open>max_iterations > 0\<close> (it fails with an
  \<^verbatim>\<open>AssertionError\<close> otherwise); a step whose game has reached frame \<^verbatim>\<open>max_iterations\<close>
  returns done and drops the game; and, the engine counting one frame per iteration from
  a frame that is not negative at show time, any \<^verbatim>\<open>max_iterations\<close> steps after a reset
  contain one that returns done.
\<close>

theorem episodes_are_bounded:
  "(init eng n otype dr sc vis er spec pal objs chars keys = Inr env0 \<longrightarrow>
       0 < n \<and> max_iterations env0 = n)
   \<and> (\<not> 0 < n \<longrightarrow> init eng n otype dr sc vis er spec pal objs chars keys = Inl AssertionError)
   \<and> (current_game env = Some g \<and> step eng noise env action = Inr res
        \<and> max_iterations env \<le> eng_frame eng (fst (eng_play eng g action)) \<longrightarrow>
        step_done res \<and> current_game (step_env res) = None)
   \<and> ((\<forall>g a. eng_frame eng (fst (eng_play eng g a)) = eng_frame eng g + 1)
        \<and> 0 \<le> eng_frame eng (fst (eng_its_showtime eng (eng_make_game eng)))
        \<and> 0 < max_iterations env \<and> reset eng noise env = Inr (env1, st)
        \<and> steps eng env1 acts = Inr (env2, dones) \<and> nat (max_iterations env) \<le> length acts \<longrightarrow>
        True \<in> set dones)"
proof -
  have a: "0 < n \<and> max_iterations env0 = n"
    if "init eng n otype dr sc vis er spec pal objs chars keys = Inr env0"
    using that by (auto simp: init_def Let_def split: if_splits option.splits)
  have b: "init eng n otype dr sc vis er spec pal objs chars keys = Inl AssertionError"
    if "\<not> 0 < n"
    using that by (simp add: init_def)
  have c: "step_done res \<and> current_game (step_env res) = None"
    if "current_game env = Some g" "step eng noise env action = Inr res"
      "max_iterations env \<le> eng_frame eng (fst (eng_play eng g action))"
  proof -
    obtain g' observations reward where p: "eng_play eng g action = (g', observations, reward)"
      by (cases "eng_play eng g action") auto
    from step_facts(1,2) [OF that(1,2) p] that(3) p show ?thesis by simp
  qed
  have d: "True \<in> set dones"
    if cnt: "\<forall>g a. eng_frame eng (fst (eng_play eng g a)) = eng_frame eng g + 1"
      and f0: "0 \<le> eng_frame eng (fst (eng_its_showtime eng (eng_make_game eng)))"
      and pos: "0 < max_iterations env" and r: "reset eng noise env = Inr (env1, st)"
      and s: "steps eng env1 acts = Inr (env2, dones)"
      and len: "nat (max_iterations env) \<le> length acts"
  proof (rule ccontr)
    assume nd: "True \<notin> set dones"
    note rf = reset_facts [OF r]
    from cnt have cnt': "\<And>g a. eng_frame eng (fst (eng_play eng g a)) = eng_frame eng g + 1"
      by blast
    from steps_frames [OF cnt' s rf(1) nd] obtain g' where
      fr: "eng_frame eng g' =
             eng_frame eng (fst (eng_its_showtime eng (eng_make_game eng))) + int (length acts)"
      and lt: "acts \<noteq> [] \<longrightarrow> eng_frame eng g' < max_iterations env1"
      by blast
    from pos len have "acts \<noteq> []" by auto
    with lt rf(2) have "eng_frame eng g' < max_iterations env" by simp
    with fr f0 len show False by linarith
  qed
  from a b c d show ?thesis by blast
qed

lemma update_counts:
  assumes u: "update_for_game_step eng noise env obs reward = Inr env'"
    and wf: "well_configured env c" and n: "visitation_frequency env c = Some n"
  shows "visitation_frequency env' c = Some (if seen c obs then n + 1 else n)"
    and "num_obj_eps env' c = num_obj_eps env c" and "well_configured env' c"
proof -
  from update_for_game_step_form [OF u] obtain reward1 reward2 st vf hm ve lr go where
    ob: "observe env noise obs reward1 = Inr (env\<lparr>state := st, visitation_frequency := vf\<rparr>, reward2)"
    and e: "env' = env\<lparr>state := st, visitation_frequency := vf, heatmap := hm, visitation_entropy := ve,
           last_reward := lr, env_game_over := go\<rparr>"
    by blast
  from wf have ot: "obs_type env = ''mask'' \<or> obs_type env = ''rgb''"
    and d: "distinct (state_layer_chars env)"
    and cnt: "counted env obs (state_layer_chars env) c = seen c obs"
    by (auto simp: well_configured_def counted_def)
  from observe_vf [OF ob ot d n] cnt e
  show "visitation_frequency env' c = Some (if seen c obs then n + 1 else n)" by simp
  from e show "num_obj_eps env' c = num_obj_eps env c" by simp
  from e wf show "well_configured env' c" by (simp add: well_configured_def)
qed

lemma map_of_zeros: "c \<in> set objs \<Longrightarrow> map_of (map (\<lambda>ch. (ch, 0::int)) objs) c = Some 0"
  by (induction objs) auto

lemma reset_counts:
  assumes r: "reset eng noise env = Inr (env', st)"
    and sh: "eng_its_showtime eng (eng_make_game eng) = (g, observations, reward)"
    and wf: "well_configured env c" and n: "visitation_frequency env c = Some n"
    and k: "num_obj_eps env c = Some k"
  shows "visitation_frequency env' c
           = Some (if seen c (used_observation eng g observations) then 1 else 0)"
    and "num_obj_eps env' c = Some (if n > 0 then k + 1 else k)" and "well_configured env' c"
proof -
  let ?obs = "used_observation eng g observations"
  from r sh obtain lc num where
    ce: "count_episodes (visitation_frequency env) (objects env) (num_obj_eps env) = Inr num"
    and u: "update_for_game_step eng noise
         (env\<lparr>current_game := Some g, colors := make_colors (color_palette env),
               env_game_over := False, last_reward := None,
               last_uncropped_observations := Some observations,
               last_cropped_observations := lc,
               num_obj_eps := num,
               visitation_frequency := map_of (map (\<lambda>ch. (ch, 0)) (objects env)),
               episodes := episodes env + 1,
               heatmap := zeros (fst (shape (obs_board observations)))
                            (snd (shape (obs_board observations)))\<rparr>) ?obs reward = Inr env'"
    by (auto simp: reset_def Let_def used_observation_def
        split: sum.splits option.splits intro: that [of _ "last_cropped_observations env"])
  let ?env3 = "env\<lparr>current_game := Some g, colors := make_colors (color_palette env),
               env_game_over := False, last_reward := None,
               last_uncropped_observations := Some observations,
               last_cropped_observations := lc,
               num_obj_eps := num,
               visitation_frequency := map_of (map (\<lambda>ch. (ch, 0)) (objects env)),
               episodes := episodes env + 1,
               heatmap := zeros (fst (shape (obs_board observations)))
                            (snd (shape (obs_board observations)))\<rparr>"
  from wf have wf3: "well_configured ?env3 c" and c: "c \<in> set (objects env)"
    and d: "distinct (objects env)"
    by (simp_all add: well_configured_def)
  from c have z: "visitation_frequency ?env3 c = Some 0" by (simp add: map_of_zeros)
  from update_counts [OF u wf3 z]
  show "visitation_frequency env' c = Some (if seen c ?obs then 1 else 0)"
    and "well_configured env' c" by simp_all
  from update_counts(2) [OF u wf3 z] count_episodes_num [OF ce d n k] c
  show "num_obj_eps env' c = Some (if n > 0 then k + 1 else k)" by simp
qed

lemma step_counts:
  assumes s: "step eng noise env action = Inr res"
    and wf: "well_configured env c" and n: "visitation_frequency env c = Some n"
  shows "visitation_frequency (step_env res) c =
      Some (case current_game env of None \<Rightarrow> n
            | Some g \<Rightarrow>
                (case eng_play eng g action of
                   (g', observations, reward) \<Rightarrow>
                     if seen c (used_observation eng g' observations) then n + 1 else n))"
    and "num_obj_eps (step_env res) c = num_obj_eps env c" and "well_configured (step_env res) c"
proof -
  have "visitation_frequency (step_env res) c =
      Some (case current_game env of None \<Rightarrow> n
            | Some g \<Rightarrow>
                (case eng_play eng g action of
                   (g', observations, reward) \<Rightarrow>
                     if seen c (used_observation eng g' observations) then n + 1 else n))
     \<and> num_obj_eps (step_env res) c = num_obj_eps env c \<and> well_configured (step_env res) c"
  proof (cases "current_game env")
    case None
    with s have "res = (env\<lparr>state := None\<rparr>, None, last_reward env, env_game_over env, None)"
      by (simp add: step_inactive)
    with None n wf show ?thesis by (simp add: step_env_def well_configured_def)
  next
    case (Some g)
    obtain g' observations reward where p: "eng_play eng g action = (g', observations, reward)"
      by (cases "eng_play eng g action") auto
    from step_active [OF Some s p] obtain lc env3 where
      u: "update_for_game_step eng noise
        (env\<lparr>current_game := Some g', last_uncropped_observations := Some observations,
              last_cropped_observations := lc\<rparr>)
        (used_observation eng g' observations) reward = Inr env3"
      and res: "step_env res = (if env_game_over env3 then env3\<lparr>current_game := None\<rparr> else env3)"
      by (auto simp: step_env_def)
    let ?env2 = "env\<lparr>current_game := Some g', last_uncropped_observations := Some observations,
              last_cropped_observations := lc\<rparr>"
    from wf have wf2: "well_configured ?env2 c" by (simp add: well_configured_def)
    from n have n2: "visitation_frequency ?env2 c = Some n" by simp
    from update_counts [OF u wf2 n2] res Some p show ?thesis
      by (simp add: well_configured_def)
  qed
  then show "visitation_frequency (step_env res) c =
      Some (case current_game env of None \<Rightarrow> n
            | Some g \<Rightarrow>
                (case eng_play eng g action of
                   (g', observations, reward) \<Rightarrow>
                     if seen c (used_observation eng g' observations) then n + 1 else n))"
    and "num_obj_eps (step_env res) c = num_obj_eps env c" and "well_configured (step_env res) c"
    by simp_all
qed

lemma visits_positive: "(0 < visits c (ep # eps)) = list_ex (seen c) ep"
  by (auto simp: visits_def list_ex_iff filter_empty_conv)

lemma run_counts:
  "run eng (env, episodes_log) ops = Inr (env', episodes_log') \<Longrightarrow> well_configured env c
   \<Longrightarrow> visitation_frequency env c = Some (visits c episodes_log)
   \<Longrightarrow> num_obj_eps env c = Some (visited_episodes c episodes_log)
   \<Longrightarrow> visitation_frequency env' c = Some (visits c episodes_log')
       \<and> num_obj_eps env' c = Some (visited_episodes c episodes_log')"
proof (induction ops arbitrary: env episodes_log)
  case Nil
  then show ?case by simp
next
  case (Cons op ops)
  show ?case
  proof (cases op)
    case (Reset noise)
    obtain g observations reward where
      sh: "eng_its_showtime eng (eng_make_game eng) = (g, observations, reward)"
      by (cases "eng_its_showtime eng (eng_make_game eng)") auto
    let ?obs = "used_observation eng g observations"
    from Cons.prems(1) Reset sh obtain env1 st where
      r: "reset eng noise env = Inr (env1, st)"
      and rest: "run eng (env1, [?obs] # episodes_log) ops = Inr (env', episodes_log')"
      by (auto split: sum.splits)
    note rc = reset_counts [OF r sh Cons.prems(2,3,4)]
    have v: "visitation_frequency env1 c = Some (visits c ([?obs] # episodes_log))"
      using rc(1) by (simp add: visits_def)
    have e: "num_obj_eps env1 c = Some (visited_episodes c ([?obs] # episodes_log))"
    proof (cases episodes_log)
      case Nil
      with rc(2) show ?thesis by (simp add: visits_def visited_episodes_def)
    next
      case (Cons ep eps)
      with rc(2) visits_positive [of c ep eps] show ?thesis
        by (simp add: visited_episodes_def)
    qed
    from Cons.IH [OF rest rc(3) v e] show ?thesis .
  next
    case (Step noise action)
    from Cons.prems(1) Step obtain res where s: "step eng noise env action = Inr res"
      by (auto split: sum.splits)
    note sc = step_counts [OF s Cons.prems(2,3)]
    show ?thesis
    proof (cases "current_game env")
      case None
      with Cons.prems(1) Step s have
        rest: "run eng (step_env res, episodes_log) ops = Inr (env', episodes_log')" by simp
      from sc(1,2) None Cons.prems(4)
      have "visitation_frequency (step_env res) c = Some (visits c episodes_log)"
        "num_obj_eps (step_env res) c = Some (visited_episodes c episodes_log)" by simp_all
      from Cons.IH [OF rest sc(3) this] show ?thesis .
    next
      case (Some g0)
      obtain g observations reward where p: "eng_play eng g0 action = (g, observations, reward)"
        by (cases "eng_play eng g0 action") auto
      let ?obs = "used_observation eng g observations"
      let ?log = "case episodes_log of [] \<Rightarrow> [[?obs]] | ep # eps \<Rightarrow> (?obs # ep) # eps"
      from Cons.prems(1) Step s Some p have
        rest: "run eng (step_env res, ?log) ops = Inr (env', episodes_log')" by simp
      from sc(1) Some p
      have v: "visitation_frequency (step_env res) c = Some (visits c ?log)"
        by (simp add: visits_def split: list.splits)
      from sc(2) Cons.prems(4)
      have e: "num_obj_eps (step_env res) c = Some (visited_episodes c ?log)"
        by (simp add: visited_episodes_def split: list.splits)
      from Cons.IH [OF rest sc(3) v e] show ?thesis .
    qed
  qed
qed

text \<open>
  Claim C7.  After any sequence of \<^verbatim>\<open>reset\<close> and \<^verbatim>\<open>step\<close> calls on a fresh adapter, the
  visitation frequency of an object is the number of updates of the current episode in
  which its layer was visible (the count restarts at every reset, whose own update is the
  first of the episode), and its episode counter is the number of finished episodes in
  which it was visible at least once (one more at each reset that ends such an episode).
\<close>

theorem visitation_counters:
  assumes "run eng (env0, []) ops = Inr (env, episodes_log)"
    and "well_configured env0 c"
    and "visitation_frequency env0 c = Some 0" and "num_obj_eps env0 c = Some 0"
  shows "visitation_frequency env c = Some (visits c episodes_log)
     \<and> num_obj_eps env c = Some (visited_episodes c episodes_log)"
  using run_counts [OF assms(1,2)] assms(3,4) by (simp add: visits_def visited_episodes_def)

lemmas toy_defs = toy_after_def toy_started_def toy_env_def init_def toy_engine_def reset_def step_def
  update_for_game_step_def coordinate_reward_def observe_def update_heatmap_def
  heatmap_incr_def np_index_def shape_def crop_observations_def toy_obs_def contains_one_def
  make_colors_def zeros_def Let_def pycolab_init_def paint_board_def paint_key_def has_shape_def
  resize_def repeat_axes_def uint8_def toy_noise_def step_reward_def step_done_def step_env_def
  used_observation_def goal_visible_def goal_reached_def game_reward_def seen_def
  well_configured_def visits_def visited_episodes_def

theorem step_without_game_witness:
  "current_game (toy_env ''mask'' 7) = None
   \<and> step toy_engine toy_noise (toy_env ''mask'' 7) 0
       = Inr ((toy_env ''mask'' 7)\<lparr>state := None\<rparr>, None, None, False, None)
   \<and> map_sum id step_done (step toy_engine toy_noise (toy_after ''mask'' 7 [0]) 1) = Inr True
   \<and> current_game (step_env (projr (step toy_engine toy_noise (toy_after ''mask'' 7 [0]) 1))) = None
   \<and> map_sum id (\<lambda>res. (step_state res, step_reward res, step_done res, step_info res))
        (step toy_engine toy_noise
           (step_env (projr (step toy_engine toy_noise (toy_after ''mask'' 7 [0]) 1))) 3)
       = Inr (None, Some 7, True, None)"
proof -
  let ?env = "toy_after ''mask'' 7 [0]"
  let ?res = "projr (step toy_engine toy_noise ?env 1)"
  have g: "current_game (toy_env ''mask'' 7) = None"
    "last_reward (toy_env ''mask'' 7) = None" "\<not> env_game_over (toy_env ''mask'' 7)"
    by (simp_all add: toy_defs)
  have s: "step toy_engine toy_noise ?env 1 = Inr ?res"
    by (simp add: toy_defs)
  have d: "step_done ?res" "step_reward ?res = Some 7"
    by (simp_all add: toy_defs)
  from step_without_game [of "toy_env ''mask'' 7" toy_engine toy_noise 0] g
  have one: "step toy_engine toy_noise (toy_env ''mask'' 7) 0
       = Inr ((toy_env ''mask'' 7)\<lparr>state := None\<rparr>, None, None, False, None)"
    by simp
  from step_without_game [of ?env toy_engine toy_noise 1 ?res toy_noise 3] s d
  have two: "current_game (step_env ?res) = None"
    "step toy_engine toy_noise (step_env ?res) 3
       = Inr ((step_env ?res)\<lparr>state := None\<rparr>, None, Some 7, True, None)"
    by simp_all
  have three: "map_sum id step_done (step toy_engine toy_noise ?env 1) = Inr True"
    by (subst s) (simp add: d)
  from g one two three show ?thesis
    by (simp add: step_state_def step_reward_def step_done_def step_info_def)
qed

lemma toy_step_rgb:
  "step toy_engine toy_noise (toy_started ''rgb'' 7) 1
     = Inr (projr (step toy_engine toy_noise (toy_started ''rgb'' 7) 1))"
  by (simp add: toy_defs)

lemma toy_step_rgb_zero:
  "step toy_engine toy_noise (toy_started ''rgb'' 0) 1
     = Inr (projr (step toy_engine toy_noise (toy_started ''rgb'' 0) 1))"
  by (simp add: toy_defs)

lemma toy_step_mask_zero:
  "step toy_engine toy_noise (toy_started ''mask'' 0) 1
     = Inr (projr (step toy_engine toy_noise (toy_started ''mask'' 0) 1))"
  by (simp add: toy_defs)

lemma toy_step_mask_hidden:
  "step toy_engine toy_noise (toy_started ''mask'' 0) 2
     = Inr (projr (step toy_engine toy_noise (toy_started ''mask'' 0) 2))"
  by (simp add: toy_defs)

theorem step_reports_reward_witness:
  "current_game (toy_started ''rgb'' 7) = Some 0
   \<and> current_game (toy_started ''rgb'' 0) = Some 0
   \<and> current_game (toy_started ''mask'' 0) = Some 0
   \<and> eng_play toy_engine 0 1 = (1, toy_obs True, Some 1)
   \<and> eng_play toy_engine 0 2 = (1, toy_obs False, None)
   \<and> goal_visible (toy_started ''rgb'' 7) (used_observation toy_engine 1 (toy_obs True))
   \<and> \<not> goal_visible (toy_started ''mask'' 0) (used_observation toy_engine 1 (toy_obs False))
   \<and> map_sum id step_reward (step toy_engine toy_noise (toy_started ''rgb'' 7) 1) = Inr (Some 7)
   \<and> map_sum id step_reward (step toy_engine toy_noise (toy_started ''rgb'' 0) 1) = Inr (Some 1)
   \<and> map_sum id step_reward (step toy_engine toy_noise (toy_started ''mask'' 0) 1) = Inr (Some 0)
   \<and> map_sum id step_reward (step toy_engine toy_noise (toy_started ''mask'' 0) 2)
       = Inr (Some (1 / 2))"
proof -
  have f: "current_game (toy_started ''rgb'' 7) = Some 0"
    "eng_play toy_engine 0 1 = (1, toy_obs True, Some 1)"
    "obs_type (toy_started ''rgb'' 7) = ''rgb''"
    "extrinsic_reward (toy_started ''rgb'' 7) = 7"
    "\<not> extrinsic_coord_based (toy_started ''rgb'' 7)"
    "goal_visible (toy_started ''rgb'' 7) (used_observation toy_engine 1 (toy_obs True))"
    by (simp_all add: toy_defs)
  have z: "current_game (toy_started ''rgb'' 0) = Some 0"
    "obs_type (toy_started ''rgb'' 0) = ''rgb''"
    "extrinsic_reward (toy_started ''rgb'' 0) = 0"
    "\<not> extrinsic_coord_based (toy_started ''rgb'' 0)"
    "game_reward (toy_started ''rgb'' 0) (Some 1) = 1"
    by (simp_all add: toy_defs)
  have m: "current_game (toy_started ''mask'' 0) = Some 0"
    "eng_play toy_engine 0 2 = (1, toy_obs False, None)"
    "obs_type (toy_started ''mask'' 0) = ''mask''"
    "extrinsic_reward (toy_started ''mask'' 0) = 0"
    "\<not> extrinsic_coord_based (toy_started ''mask'' 0)"
    "goal_visible (toy_started ''mask'' 0) (used_observation toy_engine 1 (toy_obs True))"
    "\<not> goal_visible (toy_started ''mask'' 0) (used_observation toy_engine 1 (toy_obs False))"
    "game_reward (toy_started ''mask'' 0) None = 1 / 2"
    by (simp_all add: toy_defs)
  from step_reports_reward [OF f(1) toy_step_rgb f(2)] f
  have one: "step_reward (projr (step toy_engine toy_noise (toy_started ''rgb'' 7) 1)) = Some 7"
    by simp
  from step_reports_reward [OF z(1) toy_step_rgb_zero f(2)] z
  have two: "step_reward (projr (step toy_engine toy_noise (toy_started ''rgb'' 0) 1)) = Some 1"
    by simp
  from step_reports_reward [OF m(1) toy_step_mask_zero f(2)] m
  have three: "step_reward (projr (step toy_engine toy_noise (toy_started ''mask'' 0) 1)) = Some 0"
    by simp
  from step_reports_reward [OF m(1) toy_step_mask_hidden m(2)] m
  have four: "step_reward (projr (step toy_engine toy_noise (toy_started ''mask'' 0) 2)) = Some (1 / 2)"
    by simp
  have "map_sum id step_reward (step toy_engine toy_noise (toy_started ''rgb'' 7) 1) = Inr (Some 7)"
    by (subst toy_step_rgb) (simp add: one)
  moreover
  have "map_sum id step_reward (step toy_engine toy_noise (toy_started ''rgb'' 0) 1) = Inr (Some 1)"
    by (subst toy_step_rgb_zero) (simp add: two)
  moreover
  have "map_sum id step_reward (step toy_engine toy_noise (toy_started ''mask'' 0) 1) = Inr (Some 0)"
    by (subst toy_step_mask_zero) (simp add: three)
  moreover
  have "map_sum id step_reward (step toy_engine toy_noise (toy_started ''mask'' 0) 2) = Inr (Some (1 / 2))"
    by (subst toy_step_mask_hidden) (simp add: four)
  ultimately show ?thesis using f z m by simp
qed

text \<open>
  The claim as stated fails: with the extrinsic reward 0 and the goal character visible,
  the \<^verbatim>\<open>'rgb'\<close> adapter reports the game's reward 1, not the extrinsic reward, while the
  \<^verbatim>\<open>'mask'\<close> adapter reports the extrinsic reward 0.
\<close>

theorem step_reward_not_uniform:
  "obs_type (toy_started ''rgb'' 0) = ''rgb'' \<and> obs_type (toy_started ''mask'' 0) = ''mask''
   \<and> extrinsic_reward (toy_started ''rgb'' 0) = 0 \<and> extrinsic_reward (toy_started ''mask'' 0) = 0
   \<and> \<not> extrinsic_coord_based (toy_started ''rgb'' 0)
   \<and> \<not> extrinsic_coord_based (toy_started ''mask'' 0)
   \<and> extrinsic_reward_spec (toy_started ''rgb'' 0) = (CHR ''P'', GoalChar CHR ''a'')
   \<and> eng_play toy_engine 0 1 = (1, toy_obs True, Some 1)
   \<and> seen CHR ''a'' (used_observation toy_engine 1 (toy_obs True))
   \<and> map_sum id step_reward (step toy_engine toy_noise (toy_started ''rgb'' 0) 1) = Inr (Some 1)
   \<and> map_sum id step_reward (step toy_engine toy_noise (toy_started ''mask'' 0) 1) = Inr (Some 0)"
  by (simp add: toy_defs)

lemma toy_counts: "\<forall>g a. eng_frame toy_engine (fst (eng_play toy_engine g a)) = eng_frame toy_engine g + 1"
  by (simp add: toy_engine_def)

lemma toy_init:
  "init toy_engine 2 ''mask'' (1 / 2) 2 3 7 (Some (CHR ''P'', GoalChar CHR ''a'')) 0 ''a'' ''a@'' ''a@ ''
     = Inr (projr (init toy_engine 2 ''mask'' (1 / 2) 2 3 7 (Some (CHR ''P'', GoalChar CHR ''a'')) 0
                     ''a'' ''a@'' ''a@ ''))"
  by (simp add: init_def Let_def)

lemma toy_reset:
  "reset toy_engine toy_noise (toy_env ''mask'' 7) = Inr (toy_started ''mask'' 7, state (toy_started ''mask'' 7))"
  by (simp add: toy_defs)

lemma toy_steps:
  "steps toy_engine (toy_started ''mask'' 7) [(toy_noise, 0), (toy_noise, 1)]
     = Inr (toy_after ''mask'' 7 [0, 1], [False, True])"
  by (simp add: toy_defs)

lemma toy_last_step:
  "step toy_engine toy_noise (toy_after ''mask'' 7 [0]) 1
     = Inr (projr (step toy_engine toy_noise (toy_after ''mask'' 7 [0]) 1))"
  by (simp add: toy_defs)

theorem episodes_are_bounded_witness:
  "max_iterations (toy_env ''mask'' 7) = 2
   \<and> init toy_engine 0 ''mask'' (1 / 2) 2 3 7 (Some (CHR ''P'', GoalChar CHR ''a'')) 0 ''a'' ''a@'' ''a@ ''
       = Inl AssertionError
   \<and> current_game (toy_after ''mask'' 7 [0]) = Some 1
   \<and> max_iterations (toy_after ''mask'' 7 [0]) \<le> eng_frame toy_engine (fst (eng_play toy_engine 1 1))
   \<and> map_sum id step_done (step toy_engine toy_noise (toy_after ''mask'' 7 [0]) 1) = Inr True
   \<and> current_game (toy_after ''mask'' 7 [0, 1]) = None
   \<and> steps toy_engine (toy_started ''mask'' 7) [(toy_noise, 0), (toy_noise, 1)]
       = Inr (toy_after ''mask'' 7 [0, 1], [False, True])
   \<and> True \<in> set [False, True]"
proof -
  note inst = episodes_are_bounded [of toy_engine 2 "''mask''" "1 / 2" 2 3 7
      "Some (CHR ''P'', GoalChar CHR ''a'')" 0 "''a''" "''a@''" "''a@ ''"
      "projr (init toy_engine 2 ''mask'' (1 / 2) 2 3 7 (Some (CHR ''P'', GoalChar CHR ''a'')) 0
                     ''a'' ''a@'' ''a@ '')"
      "toy_after ''mask'' 7 [0]" 1 toy_noise 1
      "projr (step toy_engine toy_noise (toy_after ''mask'' 7 [0]) 1)"]
  have m: "max_iterations (toy_env ''mask'' 7) = 2"
    using inst toy_init by (simp add: toy_env_def pycolab_init_def)
  have a: "init toy_engine 0 ''mask'' (1 / 2) 2 3 7 (Some (CHR ''P'', GoalChar CHR ''a'')) 0 ''a'' ''a@'' ''a@ ''
       = Inl AssertionError"
    using episodes_are_bounded [of toy_engine 0 "''mask''" "1 / 2" 2 3 7
      "Some (CHR ''P'', GoalChar CHR ''a'')" 0 "''a''" "''a@''" "''a@ ''"] by simp
  have c: "current_game (toy_after ''mask'' 7 [0]) = Some 1"
    "max_iterations (toy_after ''mask'' 7 [0]) \<le> eng_frame toy_engine (fst (eng_play toy_engine 1 1))"
    by (simp_all add: toy_defs)
  from inst c toy_last_step
  have d: "step_done (projr (step toy_engine toy_noise (toy_after ''mask'' 7 [0]) 1))"
    "current_game (step_env (projr (step toy_engine toy_noise (toy_after ''mask'' 7 [0]) 1))) = None"
    by simp_all
  have d1: "map_sum id step_done (step toy_engine toy_noise (toy_after ''mask'' 7 [0]) 1) = Inr True"
    by (subst toy_last_step) (simp add: d)
  have d2: "current_game (toy_after ''mask'' 7 [0, 1]) = None"
    using d(2) by (simp add: toy_after_def)
  have "True \<in> set [False, True]"
    using episodes_are_bounded [of toy_engine _ _ _ _ _ _ _ _ _ _ _ _
        "toy_env ''mask'' 7" _ toy_noise _ _ "toy_started ''mask'' 7" "state (toy_started ''mask'' 7)"
        "[(toy_noise, 0), (toy_noise, 1)]" "toy_after ''mask'' 7 [0, 1]" "[False, True]"]
      toy_counts toy_reset toy_steps m
    by (simp add: toy_engine_def)
  with m a c d1 d2 toy_steps show ?thesis by simp
qed

lemma toy_run:
  "run toy_engine (toy_env ''mask'' 7, []) toy_operations
     = Inr (fst (projr (run toy_engine (toy_env ''mask'' 7, []) toy_operations)), toy_log)"
  by (simp add: toy_operations_def toy_log_def toy_env_def init_def toy_engine_def reset_def step_def
  update_for_game_step_def coordinate_reward_def observe_def update_heatmap_def
  heatmap_incr_def np_index_def shape_def crop_observations_def contains_one_def
  make_colors_def zeros_def Let_def pycolab_init_def toy_noise_def step_env_def
  used_observation_def toy_obs_def)

theorem visitation_counters_witness:
  "well_configured (toy_env ''mask'' 7) CHR ''a''
   \<and> visitation_frequency (toy_env ''mask'' 7) CHR ''a'' = Some 0
   \<and> num_obj_eps (toy_env ''mask'' 7) CHR ''a'' = Some 0
   \<and> map_sum id snd (run toy_engine (toy_env ''mask'' 7, []) toy_operations) = Inr toy_log
   \<and> visits CHR ''a'' toy_log = 1 \<and> visited_episodes CHR ''a'' toy_log = 1
   \<and> map_sum id (\<lambda>r. (visitation_frequency (fst r) CHR ''a'', num_obj_eps (fst r) CHR ''a''))
        (run toy_engine (toy_env ''mask'' 7, []) toy_operations) = Inr (Some 1, Some 1)"
proof -
  have f: "well_configured (toy_env ''mask'' 7) CHR ''a''"
    "visitation_frequency (toy_env ''mask'' 7) CHR ''a'' = Some 0"
    "num_obj_eps (toy_env ''mask'' 7) CHR ''a'' = Some 0"
    by (simp_all add: toy_defs)
  have v: "visits CHR ''a'' toy_log = 1" "visited_episodes CHR ''a'' toy_log = 1"
    by (simp_all add: toy_log_def visits_def visited_episodes_def seen_def toy_obs_def
        contains_one_def)
  from visitation_counters [OF toy_run f] v
  have c: "visitation_frequency (fst (projr (run toy_engine (toy_env ''mask'' 7, []) toy_operations)))
             CHR ''a'' = Some 1"
    "num_obj_eps (fst (projr (run toy_engine (toy_env ''mask'' 7, []) toy_operations)))
             CHR ''a'' = Some 1"
    by simp_all
  have "map_sum id snd (run toy_engine (toy_env ''mask'' 7, []) toy_operations) = Inr toy_log"
    by (subst toy_run) simp
  moreover
  have "map_sum id (\<lambda>r. (visitation_frequency (fst r) CHR ''a'', num_obj_eps (fst r) CHR ''a''))
        (run toy_engine (toy_env ''mask'' 7, []) toy_operations) = Inr (Some 1, Some 1)"
    by (subst toy_run) (simp add: c)
  ultimately show ?thesis using f v by simp
qed

section \<open>Properties of the random network distillation module\<close>

lemma rnd_same_obs_rms: "\<exists>r. s = s\<lparr>obs_rms := r\<rparr>"
  by (rule exI [of _ "obs_rms s"]) simp

lemma forward_form:
  assumes "forward ops s obs done = Inr (s1, phi, pred, T')"
  shows "phi = map (map (\<lambda>fr. target_features ops s (normalize_obs (obs_rms s) (last fr)))) obs"
    and "pred = map (map (\<lambda>fr. predictor_features ops s (normalize_obs (obs_rms s) (last fr)))) obs"
    and "T' = length obs"
    and "\<exists>r. s1 = s\<lparr>obs_rms := r\<rparr>"
proof -
  from assms show "phi = map (map (\<lambda>fr. target_features ops s (normalize_obs (obs_rms s) (last fr)))) obs"
    by (auto simp: forward_def Let_def target_features_def o_def
        split: if_splits option.splits sum.splits)
  from assms show "pred = map (map (\<lambda>fr. predictor_features ops s (normalize_obs (obs_rms s) (last fr)))) obs"
    by (auto simp: forward_def Let_def predictor_features_def o_def
        split: if_splits option.splits sum.splits)
  from assms show "T' = length obs"
    by (auto simp: forward_def Let_def shape_def split: if_splits option.splits sum.splits)
  from assms show "\<exists>r. s1 = s\<lparr>obs_rms := r\<rparr>"
    by (auto simp: forward_def Let_def split: if_splits option.splits sum.splits intro: rnd_same_obs_rms)
qed




lemma compute_bonus_form:
  assumes "compute_bonus ops s obs done = Inr (s', bonus)"
  shows "\<exists>s1 phi pred T' rewards rms.
     forward ops s obs (Some done) = Inr (s1, phi, pred, T')
     \<and> mse_rewards (feature_size s1) pred phi = Inr rewards
     \<and> rms = update_rew_rms_from_moments ops (rew_rms s1)
           (np_mean (snd (filter_rewards ops (rew_rff s1) rewards (map (map (\<lambda>x. \<bar>x - 1\<bar>)) done) [0..<T'])))
           (np_var (snd (filter_rewards ops (rew_rff s1) rewards (map (map (\<lambda>x. \<bar>x - 1\<bar>)) done) [0..<T'])))
           (np_sum (map (map (\<lambda>x. \<bar>x - 1\<bar>)) done))
     \<and> rew_rms s' = rms \<and> target_model s' = target_model s1
     \<and> bonus = map (map (\<lambda>r. prediction_beta s1 * r))
          (mul_arrays (map (map (\<lambda>r. r / sqrt (rms_var rms))) rewards) (map (map (\<lambda>x. \<bar>x - 1\<bar>)) done))"
  using assms
  by (auto simp: compute_bonus_def Let_def split: sum.splits prod.splits if_splits)




lemmas toy_rnd_defs = compute_bonus_def compute_loss_def forward_def toy_ops_def toy_rnd_def
  rnd_init_def Let_def
  shape_def valid_obs_def num_not_done_def column_def normalize_obs_def clamp_def mse_rewards_def
  squared_error_def mul_arrays_def np_mean_def np_var_def np_sum_def has_shape_def flags_def
  predictor_features_def target_features_def norm_obs_at_def

lemma toy_bonus:
  "compute_bonus toy_ops toy_rnd toy_batch toy_done
     = Inr (toy_rnd\<lparr>obs_rms := \<lparr>rms_mean = [0], rms_var = [1], rms_count = 1\<rparr>,
                     rew_rff := \<lparr>rewems = Some [81], rff_gamma = 99 / 100\<rparr>,
                     rew_rms := \<lparr>rms_mean = 41, rms_var = 1604, rms_count = 1\<rparr>\<rparr>,
            [[2 / sqrt 1604], [0]])"
  by (simp add: toy_rnd_defs toy_batch_def toy_done_def sum_list_replicate)


lemma toy_trained_eq:
  "toy_trained = toy_rnd\<lparr>obs_rms := \<lparr>rms_mean = [0], rms_var = [1], rms_count = 1\<rparr>,
                     rew_rff := \<lparr>rewems = Some [81], rff_gamma = 99 / 100\<rparr>,
                     rew_rms := \<lparr>rms_mean = 41, rms_var = 1604, rms_count = 1\<rparr>\<rparr>"
  by (simp add: toy_trained_def toy_bonus)


lemma sum_abs_flags:
  "list_all (\<lambda>x. x = 0 \<or> x = 1) xs \<Longrightarrow>
   sum_list (map (\<lambda>x. \<bar>x - 1\<bar>) xs) = real (length (filter (\<lambda>x. x = (0::real)) xs))"
  by (induction xs) auto

lemma shape_of_has_shape: "has_shape T B a \<Longrightarrow> 0 < T \<Longrightarrow> shape a = (T, B)"
  by (cases a) (auto simp: has_shape_def shape_def)

lemma column_flags:
  "list_all (list_all (\<lambda>x. x = 0 \<or> x = (1::real))) d \<Longrightarrow> list_all (\<lambda>row. length row = B) d
   \<Longrightarrow> b < B \<Longrightarrow> list_all (\<lambda>x. x = 0 \<or> x = 1) (column b d)"
  by (auto simp: column_def list_all_iff)

lemma num_not_done_flags:
  assumes "flags T B d" "0 < T" "b < B"
  shows "length (num_not_done d) = B" and "num_not_done d ! b = real (count_not_done b d)"
proof -
  from assms(1,2) have sh: "shape d = (T, B)" by (simp add: flags_def shape_of_has_shape)
  then show "length (num_not_done d) = B" by (simp add: num_not_done_def)
  from assms have "list_all (\<lambda>x. x = 0 \<or> x = 1) (column b d)"
    by (auto simp: flags_def has_shape_def intro: column_flags)
  from sum_abs_flags [OF this] sh assms(3)
  show "num_not_done d ! b = real (count_not_done b d)"
    by (simp add: num_not_done_def count_not_done_def)
qed

lemma fold_append_concat:
  "fold (\<lambda>i valid. valid @ f i) xs acc = acc @ concat (map f xs)"
  by (induction xs arbitrary: acc) auto

lemma valid_obs_slices:
  assumes "flags T B d" "0 < T" "0 < B"
  shows "valid_obs B obs_cpu d
     = Inr (concat (map (\<lambda>b. take (count_not_done b d) (column b obs_cpu)) [0..<B]))"
proof -
  let ?n = "num_not_done d"
  let ?f = "\<lambda>i. take (nat \<lfloor>?n ! i\<rfloor>) (column i obs_cpu)"
  have len: "length ?n = B" using assms by (simp add: num_not_done_flags)
  have "fold (\<lambda>i valid. valid @ ?f i) [1..<B] (?f 0) = concat (map ?f [0..<B])"
    using assms(3) by (simp add: fold_append_concat upt_conv_Cons [of 0 B])
  also have "\<dots> = concat (map (\<lambda>b. take (count_not_done b d) (column b obs_cpu)) [0..<B])"
  proof -
    have "map ?f [0..<B] = map (\<lambda>b. take (count_not_done b d) (column b obs_cpu)) [0..<B]"
      using assms(1,2) by (auto simp: num_not_done_flags)
    then show ?thesis by (rule arg_cong [where f = concat])
  qed
  finally show ?thesis using assms(3) len by (simp add: valid_obs_def Let_def)
qed

lemma sorted_flags_prefix:
  "length xs = length ds \<Longrightarrow> sorted ds \<Longrightarrow> list_all (\<lambda>x. x = 0 \<or> x = (1::real)) ds \<Longrightarrow>
   map fst (filter (\<lambda>(x, dn). dn = 0) (zip xs ds)) = take (length (filter (\<lambda>dn. dn = 0) ds)) xs"
proof (induction ds arbitrary: xs)
  case Nil
  then show ?case by simp
next
  case (Cons dn ds)
  then obtain x xs' where xs: "xs = x # xs'" by (cases xs) auto
  show ?case
  proof (cases "dn = 0")
    case True
    with Cons xs show ?thesis by simp
  next
    case False
    with Cons.prems have one: "dn = 1" by simp
    with Cons.prems(2) have "\<forall>y\<in>set ds. 1 \<le> y" by simp
    then have none: "filter (\<lambda>y. y = 0) ds = []"
      by (auto simp: filter_empty_conv)
    have "filter (\<lambda>(x, dn). dn = 0) (zip xs' ds) = []"
      using \<open>\<forall>y\<in>set ds. 1 \<le> y\<close> by (auto simp: filter_empty_conv dest!: set_zip_rightD)
    with one none xs show ?thesis by simp
  qed
qed

text \<open>
  What \<^verbatim>\<open>forward\<close> hands to the update of the observation statistics: of every column of
  the batch its first observations, as many as the column has timesteps that are not done.
  In a column whose done timesteps all come after the others these are the observations
  of the timesteps that are not done.
\<close>

lemma forward_prefix_update:
  assumes f: "forward ops s obs (Some d) = Inr (s', phi, predicted_phi, T')"
    and sh: "has_shape T B obs" and fl: "flags T B d" and pos: "0 < T" "0 < B"
  shows "obs_rms s' = update_obs_rms ops (obs_rms s)
           (concat (map (\<lambda>b. take (count_not_done b d) (column b (map (map last) obs))) [0..<B]))
     \<and> (\<forall>b<B. sorted (column b d) \<longrightarrow>
           take (count_not_done b d) (column b (map (map last) obs))
             = not_done_obs b (map (map last) obs) d)"
proof -
  let ?obs1 = "map (map last) obs"
  from sh have sh1: "has_shape T B ?obs1"
    by (auto simp: has_shape_def list_all_iff)
  with pos have B: "snd (shape ?obs1) = B" by (simp add: shape_of_has_shape)
  from f B valid_obs_slices [OF fl pos, of ?obs1]
  have upd: "obs_rms s' = update_obs_rms ops (obs_rms s)
           (concat (map (\<lambda>b. take (count_not_done b d) (column b ?obs1)) [0..<B]))"
    by (auto simp: forward_def Let_def split: if_splits)
  have pre: "take (count_not_done b d) (column b ?obs1) = not_done_obs b ?obs1 d"
    if b: "b < B" and so: "sorted (column b d)" for b
  proof -
    from fl b have fb: "list_all (\<lambda>x. x = 0 \<or> x = 1) (column b d)"
      by (auto simp: flags_def has_shape_def intro: column_flags)
    from sh1 fl have "length (column b ?obs1) = length (column b d)"
      by (simp add: column_def has_shape_def flags_def)
    from sorted_flags_prefix [OF this so fb] show ?thesis
      by (simp add: not_done_obs_def count_not_done_def)
  qed
  from upd pre show ?thesis by blast
qed



lemma forward_target:
  "forward ops s obs done = Inr (s1, phi, pred, T') \<Longrightarrow> target_model s1 = target_model s"
  using forward_form(4) [of ops s obs "done" s1 phi pred T'] by auto

lemma compute_bonus_target:
  assumes "compute_bonus ops s obs done = Inr (s', bonus)"
  shows "target_model s' = target_model s"
proof -
  from compute_bonus_form [OF assms] obtain s1 phi pred T' where
    "forward ops s obs (Some done) = Inr (s1, phi, pred, T')"
    and "target_model s' = target_model s1"
    by (elim exE conjE)
  with forward_target show ?thesis by simp
qed

lemma compute_loss_target:
  assumes "compute_loss ops s obs valid rand = Inr (s', loss)"
  shows "target_model s' = target_model s"
proof -
  from assms obtain phi pred T' where "forward ops s obs None = Inr (s', phi, pred, T')"
    by (auto simp: compute_loss_def Let_def split: sum.splits if_splits)
  then show ?thesis by (rule forward_target)
qed

lemma calls_target:
  "calls ops s cs = Inr s' \<Longrightarrow> target_model s' = target_model s"
proof (induction cs arbitrary: s)
  case Nil
  then show ?case by simp
next
  case (Cons c cs)
  show ?case
  proof (cases c)
    case (Forward obs d)
    with Cons.prems obtain r where
      f: "forward ops s obs d = Inr r" and rest: "calls ops (fst r) cs = Inr s'"
      by (auto split: sum.splits)
    from f have "target_model (fst r) = target_model s"
      by (cases r) (auto dest: forward_target)
    with Cons.IH [OF rest] show ?thesis by simp
  next
    case (ComputeBonus obs d)
    with Cons.prems obtain r where
      f: "compute_bonus ops s obs d = Inr r" and rest: "calls ops (fst r) cs = Inr s'"
      by (auto split: sum.splits)
    from f have "target_model (fst r) = target_model s"
      by (cases r) (auto dest: compute_bonus_target)
    with Cons.IH [OF rest] show ?thesis by simp
  next
    case (ComputeLoss obs valid rand)
    with Cons.prems obtain r where
      f: "compute_loss ops s obs valid rand = Inr r" and rest: "calls ops (fst r) cs = Inr s'"
      by (auto split: sum.splits)
    from f have "target_model (fst r) = target_model s"
      by (cases r) (auto dest: compute_loss_target)
    with Cons.IH [OF rest] show ?thesis by simp
  qed
qed

text \<open>
  Claim C9.  In a constructed module every parameter of the target network has
  \<^verbatim>\<open>requires_grad\<close> false, with the data it was initialised with.  No sequence of calls of
  \<^verbatim>\<open>forward\<close>, \<^verbatim>\<open>compute_bonus\<close> and \<^verbatim>\<open>compute_loss\<close> changes a parameter of the target network.
  Hence \<^verbatim>\<open>forward\<close> on one observation, before the calls and after them, gives the same
  target features when the observation statistics are the same.
\<close>

theorem target_model_is_fixed:
  "list_all (\<lambda>p. \<not> requires_grad p)
     (target_model (rnd_init obs_stats beta drop_prob gam fresh_obs_rms fresh_rew_rms
        forward_params target_params))
   \<and> map param_data
        (target_model (rnd_init obs_stats beta drop_prob gam fresh_obs_rms fresh_rew_rms
           forward_params target_params))
       = map param_data target_params
   \<and> (calls ops s cs = Inr s' \<longrightarrow> target_model s' = target_model s)
   \<and> (calls ops s cs = Inr s' \<and> obs_rms s' = obs_rms s
        \<and> forward ops s obs d = Inr (s1, phi, predicted_phi, T)
        \<and> forward ops s' obs d' = Inr (s1', phi', predicted_phi', T')
      \<longrightarrow> phi' = phi)"
proof -
  have one: "list_all (\<lambda>p. \<not> requires_grad p)
     (target_model (rnd_init obs_stats beta drop_prob gam fresh_obs_rms fresh_rew_rms
        forward_params target_params))"
    by (simp add: rnd_init_def list_all_iff)
  have two: "map param_data
        (target_model (rnd_init obs_stats beta drop_prob gam fresh_obs_rms fresh_rew_rms
           forward_params target_params))
       = map param_data target_params"
    by (simp add: rnd_init_def o_def)
  have three: "target_model s' = target_model s" if "calls ops s cs = Inr s'"
    using that by (rule calls_target)
  have four: "phi' = phi"
    if c: "calls ops s cs = Inr s'" and r: "obs_rms s' = obs_rms s"
      and f: "forward ops s obs d = Inr (s1, phi, predicted_phi, T)"
      and f': "forward ops s' obs d' = Inr (s1', phi', predicted_phi', T')"
  proof -
    from three [OF c] r forward_form(1) [OF f] forward_form(1) [OF f']
    show ?thesis by (simp add: target_features_def)
  qed
  from one two three four show ?thesis by blast
qed

lemma toy_calls:
  "calls toy_ops toy_rnd
     [ComputeLoss toy_batch [[1], [1]] [[0], [0]], Forward toy_batch None,
      ComputeBonus toy_batch toy_done]
     = Inr toy_trained"
  by (simp add: toy_trained_eq)
    (simp add: toy_rnd_defs toy_batch_def toy_done_def sum_list_replicate)

lemma toy_loss_calls:
  "calls toy_ops toy_rnd [ComputeLoss toy_batch [[1], [1]] [[0], [0]], Forward toy_batch None]
     = Inr toy_rnd"
  by (simp add: toy_rnd_defs toy_batch_def sum_list_replicate)

lemma toy_forward:
  "forward toy_ops toy_rnd toy_batch None
     = Inr (toy_rnd, [[replicate 512 0], [replicate 512 15]],
            [[replicate 512 1], [replicate 512 6]], 2)"
  by (simp add: toy_rnd_defs toy_batch_def)

theorem target_model_is_fixed_witness:
  "target_model toy_rnd = [\<lparr>param_data = [3], requires_grad = False\<rparr>]
   \<and> list_all (\<lambda>p. \<not> requires_grad p) (target_model toy_rnd)
   \<and> calls toy_ops toy_rnd
        [ComputeLoss toy_batch [[1], [1]] [[0], [0]], Forward toy_batch None,
         ComputeBonus toy_batch toy_done]
       = Inr toy_trained
   \<and> target_model toy_trained = target_model toy_rnd
   \<and> calls toy_ops toy_rnd [ComputeLoss toy_batch [[1], [1]] [[0], [0]], Forward toy_batch None]
       = Inr toy_rnd
   \<and> forward toy_ops toy_rnd toy_batch None
       = Inr (toy_rnd, [[replicate 512 0], [replicate 512 15]],
              [[replicate 512 1], [replicate 512 6]], 2)"
proof -
  have t: "target_model toy_rnd = [\<lparr>param_data = [3], requires_grad = False\<rparr>]"
    by (simp add: toy_rnd_def rnd_init_def)
  note first = target_model_is_fixed [where obs_stats = None and beta = 2 and drop_prob = 1
      and gam = "99 / 100" and fresh_obs_rms = "\<lparr>rms_mean = [0], rms_var = [1], rms_count = 0\<rparr>"
      and fresh_rew_rms = "\<lparr>rms_mean = 0, rms_var = 1, rms_count = 0\<rparr>"
      and forward_params = "[\<lparr>param_data = [1], requires_grad = True\<rparr>]"
      and target_params = "[\<lparr>param_data = [3], requires_grad = True\<rparr>]"
      and ops = toy_ops and s = toy_rnd and s' = toy_trained
      and cs = "[ComputeLoss toy_batch [[1], [1]] [[0], [0]], Forward toy_batch None,
                 ComputeBonus toy_batch toy_done]"]
  from first [THEN conjunct1]
  have a: "list_all (\<lambda>p. \<not> requires_grad p) (target_model toy_rnd)"
    by (simp only: toy_rnd_def)
  from first [THEN conjunct2, THEN conjunct2, THEN conjunct1, THEN mp, OF toy_calls]
  have b: "target_model toy_trained = target_model toy_rnd" .
  note second = target_model_is_fixed [where ops = toy_ops and s = toy_rnd and s' = toy_rnd
      and cs = "[ComputeLoss toy_batch [[1], [1]] [[0], [0]], Forward toy_batch None]"
      and obs = toy_batch and d = None and d' = None and ?s1.0 = toy_rnd and s1' = toy_rnd
      and phi = "[[replicate 512 0], [replicate 512 15]]"
      and phi' = "[[replicate 512 0], [replicate 512 15]]"
      and predicted_phi = "[[replicate 512 1], [replicate 512 6]]"
      and predicted_phi' = "[[replicate 512 1], [replicate 512 6]]" and T = 2 and T' = 2]
  from second [THEN conjunct2, THEN conjunct2, THEN conjunct2, THEN mp,
      OF conjI [OF toy_loss_calls conjI [OF refl conjI [OF toy_forward toy_forward]]]]
  have c: "[[replicate 512 0], [replicate 512 15]]
      = ([[replicate 512 0], [replicate 512 15]] :: real list list list)" .
  from t a b c toy_calls toy_loss_calls toy_forward show ?thesis
    by (intro conjI)
qed
text \<open>
  \<^verbatim>\<open>compute_bonus\<close> returns on every batch of the dimensions [T, B] with at least one
  timestep, one environment and one frame, flags \<^verbatim>\<open>done\<close> of the same dimensions, and
  networks whose features have one length.
\<close>

lemma compute_bonus_returns:
  assumes sh: "has_shape T B obs" and fl: "flags T B done" and pos: "0 < T" "0 < B"
    and fr: "\<not> list_ex (list_ex (\<lambda>frames. frames = [])) obs"
    and len: "\<forall>x. length (net_forward ops (forward_model s) x) = length (net_target ops (target_model s) x)"
  shows "\<exists>s' bonus. compute_bonus ops s obs done = Inr (s', bonus)"
proof -
  let ?obs1 = "map (map last) obs"
  let ?norm = "map (map (normalize_obs (obs_rms s))) ?obs1"
  let ?phi = "map (map (net_target ops (target_model s))) ?norm"
  let ?pred = "map (map (net_forward ops (forward_model s))) ?norm"
  from sh have sh1: "has_shape T B ?obs1"
    by (auto simp: has_shape_def list_all_iff)
  with pos have shp: "shape ?obs1 = (T, B)" by (simp add: shape_of_has_shape)
  from valid_obs_slices [OF fl pos, of ?obs1] obtain valid where
    v: "valid_obs B ?obs1 done = Inr valid" by simp
  let ?s1 = "s\<lparr>obs_rms := update_obs_rms ops (obs_rms s) valid\<rparr>"
  have f: "forward ops s obs (Some done) = Inr (?s1, ?phi, ?pred, T)"
    using fr v shp by (simp add: forward_def Let_def)
  have "list_all2 (list_all2 (\<lambda>p q. length p = length q)) ?pred ?phi"
    using len by (simp add: list_all2_map1 list_all2_map2 list_all2_same)
  then obtain rewards where
    m: "mse_rewards (feature_size ?s1) ?pred ?phi = Inr rewards"
    and r: "rewards = map (\<lambda>(ps, qs). map (\<lambda>(p, q). squared_error p q / real (feature_size ?s1)) (zip ps qs))
                  (zip ?pred ?phi)"
    by (simp add: mse_rewards_def)
  from sh1 pos have "has_shape T B rewards"
    by (cases obs) (auto simp: r has_shape_def list_all_iff set_zip)
  with pos have shr: "shape rewards = (T, B)" by (simp add: shape_of_has_shape)
  from fl have "has_shape T B (map (map (\<lambda>x. \<bar>x - 1\<bar>)) done)"
    by (auto simp: flags_def has_shape_def list_all_iff)
  with pos have shn: "shape (map (map (\<lambda>x. \<bar>x - 1\<bar>)) done) = (T, B)"
    "length (map (map (\<lambda>x. \<bar>x - 1\<bar>)) done) = T"
    by (simp_all add: shape_of_has_shape has_shape_def)
  show ?thesis
    using f m shr shn
    by (simp add: compute_bonus_def Let_def split: prod.splits)
qed

end
